theory Spec2Isabelle
  imports Complex_Main "HOL-Library.Multiset" "HOL-Library.AList"
begin

section \<open>Layout table (layouts.ts)\<close>

text \<open>\<open>TilePosition\<close>: a cell of the board shape.\<close>

record TilePosition =
  col :: int
  row :: int
  layer :: int

text \<open>
  \<open>MOBILE_LAYOUT\<close>: the table of the source, in its order. Layer 0 is the 6 x 5 grid written
  row by row, layer 1 the 4 x 3 grid of columns 1 to 4 and rows 1 to 3, layer 2 the two cells
  (2, 2) and (3, 2).
\<close>

definition MOBILE_LAYOUT :: "TilePosition list" where
  "MOBILE_LAYOUT =
     concat (map (\<lambda>r. map (\<lambda>c. \<lparr>col = c, row = r, layer = 0\<rparr>) [0, 1, 2, 3, 4, 5]) [0, 1, 2, 3, 4]) @
     concat (map (\<lambda>r. map (\<lambda>c. \<lparr>col = c, row = r, layer = 1\<rparr>) [1, 2, 3, 4]) [1, 2, 3]) @
     [\<lparr>col = 2, row = 2, layer = 2\<rparr>, \<lparr>col = 3, row = 2, layer = 2\<rparr>]"

definition getLayout :: "TilePosition list" where
  "getLayout = MOBILE_LAYOUT"

text \<open>\<open>TILE_EMOJIS.length\<close>: the palette has 22 entries.\<close>

definition TILE_EMOJIS_length :: nat where
  "TILE_EMOJIS_length = 22"

section \<open>Tiles (Tile.ts)\<close>

text \<open>
  A \<open>Tile\<close> object, reduced to the fields the board, the hold area and the scene read: the
  position \<open>tileData.col\<close>, \<open>tileData.row\<close>, \<open>tileData.layer\<close> (integers, as in the layout
  table), \<open>tileData.tileType\<close>, and the private flags \<open>isFree\<close> (initially true) and
  \<open>isRemoved\<close> (initially false). \<open>tid\<close> stands for the identity of the object:
  \<open>Board.create\<close> builds one object per layout position, so two tiles of a board differ in
  \<open>tid\<close>, and the reference comparison \<open>other === tile\<close> of the source is equality of the
  records.
\<close>

record Tile = TilePosition +
  tid :: nat
  tileType :: nat
  isFree :: bool
  isRemoved :: bool

text \<open>\<open>Tile.removeWithAnimation\<close>: sets \<open>isRemoved\<close>; the rest is animation.\<close>

definition removeWithAnimation :: "Tile \<Rightarrow> Tile" where
  "removeWithAnimation t = t\<lparr>isRemoved := True\<rparr>"

text \<open>\<open>Tile.setFreeState\<close>: stores the flag; the rest is presentation.\<close>

definition setFreeState :: "bool \<Rightarrow> Tile \<Rightarrow> Tile" where
  "setFreeState free t = t\<lparr>isFree := free\<rparr>"

text \<open>\<open>Tile.updateEmoji\<close>: stores the new tile type (the emoji is presentation).\<close>

definition updateEmoji :: "nat \<Rightarrow> Tile \<Rightarrow> Tile" where
  "updateEmoji newType t = t\<lparr>tileType := newType\<rparr>"

section \<open>The board (Board.ts)\<close>

subsection \<open>Free-state computation\<close>

text \<open>
  Rule 1 of \<open>Board.checkTileFree\<close>: the first loop, which returns false from the function
  as soon as a tile of a higher layer overlaps. \<open>tileOnTop\<close> is true when that early return
  is taken.
\<close>

fun tileOnTop :: "Tile \<Rightarrow> Tile list \<Rightarrow> bool" where
  "tileOnTop tile [] = False"
| "tileOnTop tile (other # rest) =
     (if other = tile then tileOnTop tile rest
      else if layer other \<le> layer tile then tileOnTop tile rest
      else if \<bar>col other - col tile\<bar> < 1 \<and> \<bar>row other - row tile\<bar> < 1 then True
      else tileOnTop tile rest)"

text \<open>
  Rule 2 of \<open>Board.checkTileFree\<close>: the second loop, threading the two local flags
  \<open>leftBlocked\<close> and \<open>rightBlocked\<close>. The source compares the column distance with the
  constant 0.1.
\<close>

fun sideBlocked :: "Tile \<Rightarrow> Tile list \<Rightarrow> bool \<times> bool \<Rightarrow> bool \<times> bool" where
  "sideBlocked tile [] flags = flags"
| "sideBlocked tile (other # rest) (leftBlocked, rightBlocked) =
     (if other = tile then sideBlocked tile rest (leftBlocked, rightBlocked)
      else if layer other \<noteq> layer tile then sideBlocked tile rest (leftBlocked, rightBlocked)
      else if \<bar>row other - row tile\<bar> \<ge> 1 then sideBlocked tile rest (leftBlocked, rightBlocked)
      else sideBlocked tile rest
        (if \<bar>real_of_int (col other - (col tile - 1))\<bar> < 1 / 10 then True else leftBlocked,
         if \<bar>real_of_int (col other - (col tile + 1))\<bar> < 1 / 10 then True else rightBlocked))"

definition checkTileFree :: "Tile \<Rightarrow> Tile list \<Rightarrow> bool" where
  "checkTileFree tile activeTiles =
     (if tileOnTop tile activeTiles then False
      else (case sideBlocked tile activeTiles (False, False) of
              (leftBlocked, rightBlocked) \<Rightarrow> \<not> leftBlocked \<or> \<not> rightBlocked))"


subsection \<open>Board state and its queries\<close>

text \<open>
  The \<open>Board\<close> object: its tiles, in creation order, and whether the callback \<open>onWin\<close> has
  been assigned (it is \<open>null\<close> after construction).
\<close>

record Board =
  tiles :: "Tile list"
  onWin :: bool

datatype BoardSignal = OnWin

definition updateFreeTiles :: "Tile list \<Rightarrow> Tile list" where
  "updateFreeTiles ts =
     (let activeTiles = filter (\<lambda>t. \<not> isRemoved t) ts
      in map (\<lambda>t. if isRemoved t then t else setFreeState (checkTileFree t activeTiles) t) ts)"



definition getRemainingCount :: "Board \<Rightarrow> nat" where
  "getRemainingCount b = length (filter (\<lambda>t. \<not> isRemoved t) (tiles b))"

text \<open>
  \<open>Board.removeTile\<close>: the tile object is marked removed, the free flags are recomputed, and
  \<open>onWin\<close> is called when no tile remains and the callback is assigned.
\<close>

definition removeTile :: "Board \<Rightarrow> Tile \<Rightarrow> Board \<times> BoardSignal list" where
  "removeTile b tile =
     (let b1 = b\<lparr>tiles := map (\<lambda>t. if t = tile then removeWithAnimation t else t) (tiles b)\<rparr>;
          b2 = b1\<lparr>tiles := updateFreeTiles (tiles b1)\<rparr>;
          remainingTiles = filter (\<lambda>t. \<not> isRemoved t) (tiles b2)
      in (b2, if length remainingTiles = 0 \<and> onWin b2 then [OnWin] else []))"

text \<open>The number of non-removed tiles of the board whose kind is \<open>k\<close>.\<close>

definition kindCount :: "Board \<Rightarrow> nat \<Rightarrow> nat" where
  "kindCount b k = length (filter (\<lambda>t. \<not> isRemoved t \<and> tileType t = k) (tiles b))"

subsection \<open>Kind generation and shuffling\<close>

text \<open>
  The Fisher-Yates loop \<open>for (let i = types.length - 1; i > 0; i--)\<close>, entered at index \<open>i\<close>.
  \<open>random i\<close> is the number \<open>Math.random()\<close> returns in the iteration of index \<open>i\<close>, a value
  in [0, 1); the swap is the destructuring assignment of the source.
\<close>

fun fisherYates :: "(nat \<Rightarrow> real) \<Rightarrow> nat list \<Rightarrow> nat \<Rightarrow> nat list" where
  "fisherYates random types 0 = types"
| "fisherYates random types (Suc n) =
     (let i = Suc n;
          j = nat \<lfloor>random i * real (i + 1)\<rfloor>
      in fisherYates random (types[i := types ! j, j := types ! i]) n)"

text \<open>
  The loop \<open>while (types.length < count) types.push(0)\<close>; \<open>cnt\<close> is the parameter
  \<open>count\<close> of the source.
\<close>

function padTypes :: "nat \<Rightarrow> nat list \<Rightarrow> nat list" where
  "padTypes cnt types =
     (if length types < cnt then padTypes cnt (types @ [0]) else types)"
  by pat_completeness auto
termination
  by (relation "measure (\<lambda>(cnt, types). cnt - length types)") auto

declare padTypes.simps [simp del]

text \<open>
  \<open>Board.generateTileTypesForPairs\<close>. \<open>paletteSize\<close> is \<open>TILE_EMOJIS.length\<close>; the source
  computes \<open>i % TILE_EMOJIS.length\<close>, which is a kind only for a non-empty palette.
\<close>

definition generateTileTypesForPairs :: "nat \<Rightarrow> (nat \<Rightarrow> real) \<Rightarrow> nat \<Rightarrow> nat list" where
  "generateTileTypesForPairs paletteSize random cnt =
     (let pairCount = cnt div 2;
          types = fold (\<lambda>i types. types @ [i mod paletteSize, i mod paletteSize]) [0..<pairCount] [];
          types = padTypes cnt types
      in fisherYates random types (length types - 1))"

text \<open>
  \<open>Board.create\<close>, without the geometry: one tile per layout position with the generated
  kind, then \<open>updateFreeTiles\<close>.
\<close>

definition Board_create :: "(nat \<Rightarrow> real) \<Rightarrow> Board \<Rightarrow> Board" where
  "Board_create random b =
     (let layout = getLayout;
          tileTypes = generateTileTypesForPairs TILE_EMOJIS_length random (length layout);
          created = map (\<lambda>i. \<lparr>col = col (layout ! i), row = row (layout ! i),
                               layer = layer (layout ! i), tid = i, tileType = tileTypes ! i,
                               isFree = True, isRemoved = False\<rparr>) [0..<length layout]
      in b\<lparr>tiles := updateFreeTiles (tiles b @ created)\<rparr>)"

text \<open>
  The second loop of \<open>Board.shuffle\<close>: the i-th non-removed tile receives \<open>types[i]\<close>;
  removed tiles are not in \<open>activeTiles\<close> and stay as they are.
\<close>

fun assignTypes :: "Tile list \<Rightarrow> nat list \<Rightarrow> Tile list" where
  "assignTypes [] types = []"
| "assignTypes (t # ts) types =
     (if isRemoved t then t # assignTypes ts types
      else (case types of
              [] \<Rightarrow> t # ts
            | newType # rest \<Rightarrow> updateEmoji newType t # assignTypes ts rest))"

definition shuffle :: "(nat \<Rightarrow> real) \<Rightarrow> Board \<Rightarrow> Board" where
  "shuffle random b =
     (let activeTiles = filter (\<lambda>t. \<not> isRemoved t) (tiles b);
          types = map tileType activeTiles;
          types = fisherYates random types (length types - 1);
          b1 = b\<lparr>tiles := assignTypes (tiles b) types\<rparr>
      in b1\<lparr>tiles := updateFreeTiles (tiles b1)\<rparr>)"

subsection \<open>Hint search\<close>






section \<open>The hold area (HoldArea.ts)\<close>

text \<open>
  A \<open>HoldSlot\<close> is reduced to its \<open>tile\<close> field, and the hold tile in it to its
  \<open>tileData.tileType\<close>, the only field of a hold tile the class reads: \<open>None\<close> is the
  \<open>null\<close> of the source. The two callbacks are \<open>null\<close> after construction; the flags
  \<open>onMatch\<close> and \<open>onGameOver\<close> say whether they have been assigned, and a call of an
  assigned callback is recorded as a \<open>HoldSignal\<close>.
\<close>

record HoldArea =
  slots :: "nat option list"
  onMatch :: bool
  onGameOver :: bool

datatype HoldSignal = OnMatch nat nat | OnGameOver

definition SLOT_COUNT :: nat where
  "SLOT_COUNT = 4"

text \<open>The constructor, and \<open>HoldArea.create\<close>, which pushes \<open>SLOT_COUNT\<close> empty slots.\<close>

definition HoldArea_new :: HoldArea where
  "HoldArea_new = \<lparr>slots = [], onMatch = False, onGameOver = False\<rparr>"

definition HoldArea_create :: "HoldArea \<Rightarrow> HoldArea" where
  "HoldArea_create h = h\<lparr>slots := fold (\<lambda>i ss. ss @ [None]) [0..<SLOT_COUNT] (slots h)\<rparr>"

definition canAddTile :: "HoldArea \<Rightarrow> bool" where
  "canAddTile h = list_ex (\<lambda>slot. slot = None) (slots h)"

definition getTileCount :: "HoldArea \<Rightarrow> nat" where
  "getTileCount h = length (filter (\<lambda>slot. slot \<noteq> None) (slots h))"

text \<open>\<open>Array.prototype.findIndex\<close>; \<open>None\<close> is the result -1.\<close>

fun findIndex :: "('a \<Rightarrow> bool) \<Rightarrow> 'a list \<Rightarrow> nat option" where
  "findIndex P [] = None"
| "findIndex P (x # xs) = (if P x then Some 0 else map_option Suc (findIndex P xs))"

text \<open>
  The \<open>Map\<close> \<open>typeCounts\<close> is kept as an association list in insertion order, as a
  JavaScript \<open>Map\<close> iterates. \<open>getOrZero\<close> is the expression \<open>typeCounts.get(t) || 0\<close>.
\<close>

definition getOrZero :: "(nat \<times> nat) list \<Rightarrow> nat \<Rightarrow> nat" where
  "getOrZero typeCounts t = (case map_of typeCounts t of None \<Rightarrow> 0 | Some c \<Rightarrow> c)"

text \<open>The loop that fills \<open>typeCounts\<close> (in \<open>addTile\<close> and in \<open>getTypesInHold\<close>).\<close>

definition countTypes :: "nat option list \<Rightarrow> (nat \<times> nat) list" where
  "countTypes ss =
     fold (\<lambda>slot typeCounts.
             case slot of
               None \<Rightarrow> typeCounts
             | Some t \<Rightarrow> AList.update t (getOrZero typeCounts t + 1) typeCounts)
       ss []"

definition getTypesInHold :: "HoldArea \<Rightarrow> (nat \<times> nat) list" where
  "getTypesInHold h = countTypes (slots h)"

text \<open>
  \<open>HoldArea.compactSlots\<close>: the first loop collects the tiles and empties every slot, the
  second writes \<open>tiles[i]\<close> into slot \<open>i\<close>.
\<close>

definition compactSlots :: "HoldArea \<Rightarrow> HoldArea" where
  "compactSlots h =
     (let collected = map the (filter (\<lambda>slot. slot \<noteq> None) (slots h));
          emptied = map (\<lambda>slot. None) (slots h)
      in h\<lparr>slots := fold (\<lambda>i ss. ss[i := Some (collected ! i)]) [0..<length collected] emptied\<rparr>)"

text \<open>
  \<open>HoldArea.handleMatch\<close>: \<open>matchingSlots\<close> holds the slots to clear, here by their indices;
  then the compaction, then the callback \<open>onMatch(tileType, 2)\<close> (\<open>tType\<close> is the parameter
  \<open>tileType\<close>).
\<close>

definition handleMatch :: "HoldArea \<Rightarrow> nat list \<Rightarrow> nat \<Rightarrow> HoldArea \<times> HoldSignal list" where
  "handleMatch h matchingSlots tType =
     (let h1 = h\<lparr>slots := fold (\<lambda>i ss. if ss ! i \<noteq> None then ss[i := None] else ss)
                              matchingSlots (slots h)\<rparr>;
          h2 = compactSlots h1
      in (h2, if onMatch h2 then [OnMatch tType 2] else []))"

text \<open>
  \<open>HoldArea.addTile\<close>. The result is the new hold area, the returned object
  \<open>{matched, matchCount}\<close> as a pair, and the callbacks called. \<open>tType\<close> is the local
  constant \<open>tileType\<close> of the source.
\<close>

definition addTile :: "HoldArea \<Rightarrow> Tile \<Rightarrow> HoldArea \<times> (bool \<times> nat) \<times> HoldSignal list" where
  "addTile h originalTile =
     (case findIndex (\<lambda>slot. slot = None) (slots h) of
        None \<Rightarrow> (h, (False, 0), [])
      | Some emptySlotIndex \<Rightarrow>
          (let tType = tileType originalTile;
               h1 = h\<lparr>slots := (slots h)[emptySlotIndex := Some tType]\<rparr>;
               matchingSlots = filter (\<lambda>i. slots h1 ! i = Some tType) [0..<length (slots h1)]
           in if length matchingSlots \<ge> 2 then
                (case handleMatch h1 (take 2 matchingSlots) tType of
                   (h2, signals) \<Rightarrow> (h2, (True, 2), signals))
              else if \<not> canAddTile h1 then
                (let typeCounts = countTypes (slots h1);
                     hasMatch = list_ex (\<lambda>c. c \<ge> 2) (map snd typeCounts)
                 in (h1, (False, 0), if \<not> hasMatch \<and> onGameOver h1 then [OnGameOver] else []))
              else (h1, (False, 0), [])))"

definition clear :: "HoldArea \<Rightarrow> HoldArea" where
  "clear h = h\<lparr>slots := map (\<lambda>slot. None) (slots h)\<rparr>"

text \<open>The kinds held in the occupied slots, in slot order.\<close>

definition holdKinds :: "nat option list \<Rightarrow> nat list" where
  "holdKinds ss = map the (filter (\<lambda>slot. slot \<noteq> None) ss)"

text \<open>
  The occupied slots are a prefix of the slots: slot \<open>i\<close> is occupied exactly when \<open>i\<close> is
  below the number of occupied slots.
\<close>

definition contiguousFromZero :: "nat option list \<Rightarrow> bool" where
  "contiguousFromZero ss =
     (\<forall>i < length ss. (ss ! i \<noteq> None) = (i < length (filter (\<lambda>slot. slot \<noteq> None) ss)))"


section \<open>The session (scenes/GameScene.ts)\<close>

text \<open>
  The fields of \<open>GameScene\<close> that carry game state. \<open>localStorage\<close> is the number stored
  under \<open>STORAGE_KEY_HIGH_SCORE\<close>, if any. Sounds, texts and tweens are left out; the two
  overlay screens and the temporary messages are recorded as \<open>SceneSignal\<close>s (the message
  texts without their emoji).
\<close>

record GameScene =
  board :: Board
  holdArea :: HoldArea
  score :: int
  highScore :: int
  comboCount :: int
  lastMatchTime :: int
  isProcessing :: bool
  overlayVisible :: bool
  localStorage :: "int option"

datatype SceneSignal = ShowWinScreen | ShowGameOverScreen | ShowTemporaryMessage string

definition COMBO_TIME_WINDOW :: int where
  "COMBO_TIME_WINDOW = 3000"

text \<open>A source of random numbers is valid when every draw lies in [0, 1), as \<open>Math.random\<close>.\<close>

definition validRandom :: "(nat \<Rightarrow> real) \<Rightarrow> bool" where
  "validRandom random = (\<forall>i. 0 \<le> random i \<and> random i < 1)"

definition showWinScreen :: "GameScene \<Rightarrow> GameScene \<times> SceneSignal list" where
  "showWinScreen s = (s\<lparr>overlayVisible := True\<rparr>, [ShowWinScreen])"

definition showGameOverScreen :: "GameScene \<Rightarrow> GameScene \<times> SceneSignal list" where
  "showGameOverScreen s = (s\<lparr>overlayVisible := True\<rparr>, [ShowGameOverScreen])"

text \<open>\<open>GameScene.onWin\<close>, the callback given to the board in \<open>create\<close>.\<close>

definition GameScene_onWin :: "GameScene \<Rightarrow> GameScene \<times> SceneSignal list" where
  "GameScene_onWin s =
     (if getTileCount (holdArea s) = 0 then showWinScreen s else (s, []))"

definition onHoldAreaFull :: "GameScene \<Rightarrow> GameScene \<times> SceneSignal list" where
  "onHoldAreaFull s = showGameOverScreen s"

text \<open>\<open>GameScene.onHoldMatch\<close>; \<open>now\<close> is the value of \<open>Date.now()\<close>.\<close>

definition onHoldMatch :: "int \<Rightarrow> GameScene \<Rightarrow> GameScene" where
  "onHoldMatch now s =
     (let s1 = (if now - lastMatchTime s < COMBO_TIME_WINDOW
                then s\<lparr>comboCount := comboCount s + 1\<rparr>
                else s\<lparr>comboCount := 1\<rparr>);
          s2 = s1\<lparr>lastMatchTime := now\<rparr>;
          baseScore = 100;
          multiplier = comboCount s2;
          points = baseScore * multiplier;
          s3 = s2\<lparr>score := score s2 + points\<rparr>
      in if score s3 > highScore s3
         then s3\<lparr>highScore := score s3, localStorage := Some (score s3)\<rparr>
         else s3)"

text \<open>The callbacks the board and the hold area call, run in the order of the calls.\<close>

fun boardCallbacks :: "BoardSignal list \<Rightarrow> GameScene \<Rightarrow> GameScene \<times> SceneSignal list" where
  "boardCallbacks [] s = (s, [])"
| "boardCallbacks (OnWin # rest) s =
     (case GameScene_onWin s of
        (s1, out1) \<Rightarrow> (case boardCallbacks rest s1 of (s2, out2) \<Rightarrow> (s2, out1 @ out2)))"

fun holdCallbacks :: "int \<Rightarrow> HoldSignal list \<Rightarrow> GameScene \<Rightarrow> GameScene \<times> SceneSignal list" where
  "holdCallbacks now [] s = (s, [])"
| "holdCallbacks now (OnMatch t c # rest) s = holdCallbacks now rest (onHoldMatch now s)"
| "holdCallbacks now (OnGameOver # rest) s =
     (case onHoldAreaFull s of
        (s1, out1) \<Rightarrow> (case holdCallbacks now rest s1 of (s2, out2) \<Rightarrow> (s2, out1 @ out2)))"

text \<open>
  \<open>GameScene.onTileSelected\<close>, a turn run to its end with no other handler in between: the
  two early returns, the rejection when the hold area is full, then the removal from the
  board, the insertion into the hold area, the win check and the release of the guard
  \<open>isProcessing\<close>. The turn in its parts, one per \<open>await\<close>, follows below.
\<close>

definition onTileSelected :: "int \<Rightarrow> Tile \<Rightarrow> GameScene \<Rightarrow> GameScene \<times> SceneSignal list" where
  "onTileSelected now tile s =
     (if overlayVisible s then (s, [])
      else if isProcessing s then (s, [])
      else if \<not> canAddTile (holdArea s) then (s, [ShowTemporaryMessage ''Hold area is full!''])
      else
        (let s1 = s\<lparr>isProcessing := True\<rparr> in
         case removeTile (board s1) tile of (b, boardSignals) \<Rightarrow>
         case boardCallbacks boardSignals (s1\<lparr>board := b\<rparr>) of (s2, out2) \<Rightarrow>
         case addTile (holdArea s2) tile of (h, result, holdSignals) \<Rightarrow>
         case holdCallbacks now holdSignals (s2\<lparr>holdArea := h\<rparr>) of (s3, out3) \<Rightarrow>
         (let boardEmpty = (getRemainingCount (board s3) = 0);
              holdEmpty = (getTileCount (holdArea s3) = 0)
          in case (if boardEmpty \<and> holdEmpty then showWinScreen s3 else (s3, [])) of
               (s4, out4) \<Rightarrow> (s4\<lparr>isProcessing := False\<rparr>, out2 @ out3 @ out4))))"

definition shuffleBoard :: "(nat \<Rightarrow> real) \<Rightarrow> GameScene \<Rightarrow> GameScene \<times> SceneSignal list" where
  "shuffleBoard random s =
     (s\<lparr>board := shuffle random (board s)\<rparr>, [ShowTemporaryMessage ''Tiles shuffled!''])"

text \<open>
  \<open>GameScene.newGame\<close>: the new board gets its callbacks again, except \<open>onWin\<close>, which the
  source does not assign here. \<open>overlayVisible\<close> is reset by the delayed call, 100 ms later.
\<close>

definition newGame :: "(nat \<Rightarrow> real) \<Rightarrow> GameScene \<Rightarrow> GameScene" where
  "newGame random s =
     s\<lparr>score := 0, comboCount := 0, lastMatchTime := 0, isProcessing := False,
       holdArea := clear (holdArea s),
       board := Board_create random \<lparr>tiles = [], onWin = False\<rparr>\<rparr>"

definition overlayDelayedCall :: "GameScene \<Rightarrow> GameScene" where
  "overlayDelayedCall s = s\<lparr>overlayVisible := False\<rparr>"

text \<open>
  \<open>GameScene.create\<close> on a fresh scene: the high score is read from the storage, the hold
  area and the board are created and their callbacks assigned.
\<close>

definition GameScene_create :: "int option \<Rightarrow> (nat \<Rightarrow> real) \<Rightarrow> GameScene" where
  "GameScene_create stored random =
     \<lparr>board = (Board_create random \<lparr>tiles = [], onWin = False\<rparr>)\<lparr>onWin := True\<rparr>,
      holdArea = (HoldArea_create HoldArea_new)\<lparr>onMatch := True, onGameOver := True\<rparr>,
      score = 0,
      highScore = (case stored of None \<Rightarrow> 0 | Some n \<Rightarrow> n),
      comboCount = 0,
      lastMatchTime = 0,
      isProcessing = False,
      overlayVisible = False,
      localStorage = stored\<rparr>"

section \<open>Turns with their awaits\<close>

text \<open>
  \<open>onTileSelected\<close> above is a turn that runs to its end with no other handler in between.
  In the source the turn is an \<open>async\<close> function: it stops at every \<open>await\<close> on an animation
  or a timer, and until the promise resolves the scene handles other events. The restart
  button and the shuffle button are not guarded by \<open>isProcessing\<close>, and \<open>newGame\<close> resets
  that flag. This section gives the turn in its parts. An \<open>await\<close> on a promise that is
  already resolved (a rejected insertion, a compaction with nothing to move) lets no event
  in and is not a stop.
\<close>

text \<open>\<open>Board.destroy\<close>: the tiles are destroyed and \<open>this.tiles = []\<close>; the callbacks stay.\<close>

definition destroy :: "Board \<Rightarrow> Board" where
  "destroy b = b\<lparr>tiles := []\<rparr>"

text \<open>
  \<open>Board.removeTile\<close> up to its \<open>await\<close>: \<open>removeWithAnimation\<close> sets \<open>isRemoved\<close> at once
  and returns the promise of the tween.
\<close>

definition removeTile_start :: "Board \<Rightarrow> Tile \<Rightarrow> Board" where
  "removeTile_start b tile =
     b\<lparr>tiles := map (\<lambda>t. if t = tile then removeWithAnimation t else t) (tiles b)\<rparr>"

text \<open>\<open>Board.removeTile\<close> after its \<open>await\<close>.\<close>

definition removeTile_finish :: "Board \<Rightarrow> Board \<times> BoardSignal list" where
  "removeTile_finish b =
     (let b2 = b\<lparr>tiles := updateFreeTiles (tiles b)\<rparr>;
          remainingTiles = filter (\<lambda>t. \<not> isRemoved t) (tiles b2)
      in (b2, if length remainingTiles = 0 \<and> onWin b2 then [OnWin] else []))"

text \<open>
  The board object a suspended \<open>removeTile\<close> call runs on (its \<open>this\<close>): the board the scene
  holds in \<open>this.board\<close>, or a board that \<open>newGame\<close> has destroyed and replaced since the call
  began. Nothing changes a destroyed board any more, so the reference carries its state.
\<close>

datatype BoardRef = ThisBoard | DestroyedBoard Board

text \<open>
  A turn stopped at an \<open>await\<close>, with the local values its continuation reads, and the delayed
  call of \<open>newGame\<close>:
  \<^item> \<open>InRemoveTile\<close>: in \<open>Board.removeTile\<close>, awaiting the removal tween of the tile;
  \<^item> \<open>InAddTile\<close>: in \<open>HoldArea.addTile\<close>, awaiting the tween that moves the hold tile into
    its slot (the value is \<open>tileType\<close>);
  \<^item> \<open>InHandleMatchGlow\<close>: in \<open>handleMatch\<close>, awaiting the delayed call of 180 ms (the values
    are \<open>matchingSlots\<close>, as slot indices, and \<open>tileType\<close>);
  \<^item> \<open>InHandleMatchRemove\<close>: in \<open>handleMatch\<close>, awaiting \<open>Promise.all(removePromises)\<close>; the
    list holds the slots whose function found a tile and awaits its removal tween;
  \<^item> \<open>InCompactSlots\<close>: in \<open>compactSlots\<close>, awaiting the move tweens;
  \<^item> \<open>OverlayTimer\<close>: the \<open>delayedCall(100, ...)\<close> of \<open>newGame\<close>.
\<close>

datatype Suspended =
    InRemoveTile BoardRef Tile
  | InAddTile nat
  | InHandleMatchGlow "nat list" nat
  | InHandleMatchRemove "nat list" nat
  | InCompactSlots nat
  | OverlayTimer

record Session =
  scene :: GameScene
  suspended :: "Suspended list"

text \<open>
  The end of \<open>onTileSelected\<close>, after \<open>await this.holdArea.addTile(tile)\<close>: the win check on
  the board and the hold area the scene holds now, and the release of \<open>isProcessing\<close>.
\<close>

definition finishTurn :: "Session \<Rightarrow> Session \<times> SceneSignal list" where
  "finishTurn ss =
     (let s = scene ss;
          boardEmpty = (getRemainingCount (board s) = 0);
          holdEmpty = (getTileCount (holdArea s) = 0)
      in case (if boardEmpty \<and> holdEmpty then showWinScreen s else (s, [])) of
           (s1, out) \<Rightarrow> (ss\<lparr>scene := s1\<lparr>isProcessing := False\<rparr>\<rparr>, out))"

text \<open>
  \<open>onTileSelected\<close> up to its first stop: the guards, \<open>isProcessing = true\<close>, and the call of
  \<open>this.board.removeTile(tile)\<close> up to its \<open>await\<close>.
\<close>

definition onTileSelected_start :: "Tile \<Rightarrow> Session \<Rightarrow> Session \<times> SceneSignal list" where
  "onTileSelected_start tile ss =
     (let s = scene ss in
      if overlayVisible s then (ss, [])
      else if isProcessing s then (ss, [])
      else if \<not> canAddTile (holdArea s) then (ss, [ShowTemporaryMessage ''Hold area is full!''])
      else (ss\<lparr>scene := s\<lparr>isProcessing := True, board := removeTile_start (board s) tile\<rparr>,
               suspended := suspended ss @ [InRemoveTile ThisBoard tile]\<rparr>, []))"

text \<open>
  \<open>handleMatch\<close> after \<open>await Promise.all(removePromises)\<close>: \<open>compactSlots\<close> collects and
  reassigns the tiles at once and awaits their move tweens; then \<open>onMatch\<close> is called,
  \<open>addTile\<close> returns and the turn ends.
\<close>

definition afterCompactSlots :: "int \<Rightarrow> nat \<Rightarrow> Session \<Rightarrow> Session \<times> SceneSignal list" where
  "afterCompactSlots now tType ss =
     (let s = scene ss in
      case holdCallbacks now (if onMatch (holdArea s) then [OnMatch tType 2] else []) s of
        (s1, out1) \<Rightarrow>
          (case finishTurn (ss\<lparr>scene := s1\<rparr>) of (ss2, out2) \<Rightarrow> (ss2, out1 @ out2)))"

definition compactSlots_start :: "int \<Rightarrow> nat \<Rightarrow> Session \<Rightarrow> Session \<times> SceneSignal list" where
  "compactSlots_start now tType ss =
     (let s = scene ss;
          moved = holdKinds (slots (holdArea s));
          ss1 = ss\<lparr>scene := s\<lparr>holdArea := compactSlots (holdArea s)\<rparr>\<rparr>
      in if moved = [] then afterCompactSlots now tType ss1
         else (ss1\<lparr>suspended := suspended ss1 @ [InCompactSlots tType]\<rparr>, []))"

text \<open>
  The functions of \<open>removePromises\<close> after their \<open>await\<close>, in the order of the slots: each runs
  \<open>slot.tile.destroy(); slot.tile = null\<close> on the tile the slot holds now. Where the slot has
  been emptied in the meantime, \<open>slot.tile.destroy()\<close> throws a \<open>TypeError\<close>; the flag of the
  result says that some function threw.
\<close>

fun destroySlotTiles :: "nat list \<Rightarrow> nat option list \<Rightarrow> nat option list \<times> bool" where
  "destroySlotTiles [] ss = (ss, False)"
| "destroySlotTiles (i # rest) ss =
     (if ss ! i = None
      then (case destroySlotTiles rest ss of (ss1, thrown) \<Rightarrow> (ss1, True))
      else destroySlotTiles rest (ss[i := None]))"

text \<open>
  The continuation of a suspended call. A \<open>TypeError\<close> in \<open>handleMatch\<close> rejects the promises
  of \<open>handleMatch\<close>, \<open>addTile\<close> and \<open>onTileSelected\<close> in turn: the turn stops there, and
  \<open>isProcessing\<close> is not released.
\<close>

fun resumeCall :: "int \<Rightarrow> Suspended \<Rightarrow> Session \<Rightarrow> Session \<times> SceneSignal list" where
  "resumeCall now (InRemoveTile ref tile) ss =
     (let s = scene ss in
      case (case ref of
              ThisBoard \<Rightarrow>
                (case removeTile_finish (board s) of (b, boardSignals) \<Rightarrow>
                   (s\<lparr>board := b\<rparr>, boardSignals))
            | DestroyedBoard old \<Rightarrow> (s, snd (removeTile_finish old))) of
        (s1, boardSignals) \<Rightarrow>
      case boardCallbacks boardSignals s1 of (s2, out2) \<Rightarrow>
      (case findIndex (\<lambda>slot. slot = None) (slots (holdArea s2)) of
         None \<Rightarrow>
           (case finishTurn (ss\<lparr>scene := s2\<rparr>) of (ss3, out3) \<Rightarrow> (ss3, out2 @ out3))
       | Some emptySlotIndex \<Rightarrow>
           (ss\<lparr>scene := s2\<lparr>holdArea := (holdArea s2)
                   \<lparr>slots := (slots (holdArea s2))[emptySlotIndex := Some (tileType tile)]\<rparr>\<rparr>,
               suspended := suspended ss @ [InAddTile (tileType tile)]\<rparr>, out2)))"
| "resumeCall now (InAddTile tType) ss =
     (let s = scene ss;
          h = holdArea s;
          matchingSlots = filter (\<lambda>i. slots h ! i = Some tType) [0..<length (slots h)]
      in if length matchingSlots \<ge> 2 then
           (ss\<lparr>suspended := suspended ss @ [InHandleMatchGlow (take 2 matchingSlots) tType]\<rparr>, [])
         else
           (let holdSignals =
                  (if \<not> canAddTile h then
                     (let typeCounts = countTypes (slots h);
                          hasMatch = list_ex (\<lambda>c. c \<ge> 2) (map snd typeCounts)
                      in if \<not> hasMatch \<and> onGameOver h then [OnGameOver] else [])
                   else [])
            in case holdCallbacks now holdSignals s of (s1, out1) \<Rightarrow>
               (case finishTurn (ss\<lparr>scene := s1\<rparr>) of (ss2, out2) \<Rightarrow> (ss2, out1 @ out2))))"
| "resumeCall now (InHandleMatchGlow matchingSlots tType) ss =
     (let awaiting = filter (\<lambda>i. slots (holdArea (scene ss)) ! i \<noteq> None) matchingSlots
      in if awaiting = [] then compactSlots_start now tType ss
         else (ss\<lparr>suspended := suspended ss @ [InHandleMatchRemove awaiting tType]\<rparr>, []))"
| "resumeCall now (InHandleMatchRemove awaiting tType) ss =
     (let s = scene ss in
      case destroySlotTiles awaiting (slots (holdArea s)) of (slots1, thrown) \<Rightarrow>
        (let ss1 = ss\<lparr>scene := s\<lparr>holdArea := (holdArea s)\<lparr>slots := slots1\<rparr>\<rparr>\<rparr>
         in if thrown then (ss1, []) else compactSlots_start now tType ss1))"
| "resumeCall now (InCompactSlots tType) ss = afterCompactSlots now tType ss"
| "resumeCall now OverlayTimer ss = (ss\<lparr>scene := overlayDelayedCall (scene ss)\<rparr>, [])"

text \<open>The \<open>i\<close>-th suspended call resumes: its promise has resolved, or its timer has fired.\<close>

definition resume :: "int \<Rightarrow> nat \<Rightarrow> Session \<Rightarrow> Session \<times> SceneSignal list" where
  "resume now i ss =
     (if i < length (suspended ss)
      then resumeCall now (suspended ss ! i)
             (ss\<lparr>suspended := take i (suspended ss) @ drop (Suc i) (suspended ss)\<rparr>)
      else (ss, []))"

text \<open>
  \<open>GameScene.newGame\<close> and \<open>GameScene.shuffleBoard\<close> as handlers of a session. \<open>newGame\<close>
  destroys the board before it creates the new one, so a \<open>removeTile\<close> call suspended on the
  board of the scene is from now on a call on a destroyed board; and it starts the delayed
  call that resets \<open>overlayVisible\<close>.
\<close>

fun afterDestroy :: "Board \<Rightarrow> Suspended \<Rightarrow> Suspended" where
  "afterDestroy b (InRemoveTile ThisBoard tile) = InRemoveTile (DestroyedBoard (destroy b)) tile"
| "afterDestroy b call = call"

definition Session_newGame :: "(nat \<Rightarrow> real) \<Rightarrow> Session \<Rightarrow> Session" where
  "Session_newGame random ss =
     ss\<lparr>scene := newGame random (scene ss),
        suspended := map (afterDestroy (board (scene ss))) (suspended ss) @ [OverlayTimer]\<rparr>"

definition Session_shuffleBoard :: "(nat \<Rightarrow> real) \<Rightarrow> Session \<Rightarrow> Session \<times> SceneSignal list" where
  "Session_shuffleBoard random ss =
     (case shuffleBoard random (scene ss) of (s1, out) \<Rightarrow> (ss\<lparr>scene := s1\<rparr>, out))"

text \<open>\<open>GameScene.create\<close>: the session starts with no call suspended.\<close>

definition Session_create :: "int option \<Rightarrow> (nat \<Rightarrow> real) \<Rightarrow> Session" where
  "Session_create stored random = \<lparr>scene = GameScene_create stored random, suspended = []\<rparr>"

text \<open>
  A turn without interruption: the start, then every stop resumed in turn before any other
  event. A turn has at most five stops.
\<close>

fun resumeAll :: "int \<Rightarrow> nat \<Rightarrow> Session \<times> SceneSignal list \<Rightarrow> Session \<times> SceneSignal list" where
  "resumeAll now 0 r = r"
| "resumeAll now (Suc n) (ss, out) =
     (if suspended ss = [] then (ss, out)
      else (case resume now 0 ss of (ss1, out1) \<Rightarrow> resumeAll now n (ss1, out @ out1)))"

definition runTurn :: "int \<Rightarrow> Tile \<Rightarrow> Session \<Rightarrow> Session \<times> SceneSignal list" where
  "runTurn now tile ss = resumeAll now 5 (onTileSelected_start tile ss)"


section \<open>A sample session\<close>



text \<open>
  A session with a restart during a turn: in the first game the player taps the free tile of
  layout position 0 and presses the restart button while the removal tween of the tile
  (250 ms) is running; then the tween completes and the suspended \<open>removeTile\<close> resumes.
\<close>

definition sampleRestart :: Session where
  "sampleRestart =
     Session_newGame (\<lambda>i. 0)
       (fst (onTileSelected_start
          \<lparr>col = 0, row = 0, layer = 0, tid = 0, tileType = 0, isFree = True, isRemoved = False\<rparr>
          (Session_create None (\<lambda>i. 0))))"

text \<open>
  A scene late in a game, to evaluate the scoring on: three tiles are left on the board, a
  tile of kind 6 waits in the hold area, the score is 100 after a first match at time 10000,
  and the stored high score is 250.
\<close>

definition sampleCombo :: GameScene where
  "sampleCombo =
     \<lparr>board = \<lparr>tiles =
         [\<lparr>col = 0, row = 0, layer = 0, tid = 0, tileType = 9, isFree = True, isRemoved = False\<rparr>,
          \<lparr>col = 5, row = 0, layer = 0, tid = 5, tileType = 6, isFree = True, isRemoved = False\<rparr>,
          \<lparr>col = 0, row = 2, layer = 0, tid = 12, tileType = 9, isFree = True, isRemoved = False\<rparr>],
         onWin = True\<rparr>,
       holdArea = \<lparr>slots = [Some 6, None, None, None], onMatch = True, onGameOver = True\<rparr>,
       score = 100, highScore = 250, comboCount = 1, lastMatchTime = 10000,
       isProcessing = False, overlayVisible = False, localStorage = Some 250\<rparr>"

section \<open>Free-state rule\<close>

lemma tenth_int_iff: "(\<bar>real_of_int k\<bar> < 1 / 10) = (k = 0)"
proof
  assume a: "\<bar>real_of_int k\<bar> < 1 / 10"
  have "\<bar>real_of_int k\<bar> < 1" using a by linarith
  then have "\<bar>k\<bar> < 1" by linarith
  then show "k = 0" by linarith
qed simp

lemma tileOnTop_iff:
  "tileOnTop t ts =
     (\<exists>x \<in> set ts. layer t < layer x \<and> \<bar>col x - col t\<bar> < 1 \<and> \<bar>row x - row t\<bar> < 1)"
  by (induction ts) auto

lemma sideBlocked_iff:
  "sideBlocked t ts (l, r) =
     (l \<or> (\<exists>x \<in> set ts. col x = col t - 1 \<and> row x = row t \<and> layer x = layer t),
      r \<or> (\<exists>x \<in> set ts. col x = col t + 1 \<and> row x = row t \<and> layer x = layer t))"
proof (induction ts arbitrary: l r)
  case Nil
  show ?case by simp
next
  case (Cons x xs)
  show ?case
    unfolding sideBlocked.simps tenth_int_iff Cons.IH
    by auto
qed

lemma checkTileFree_iff:
  "checkTileFree t (filter (\<lambda>x. \<not> isRemoved x) ts) =
     (if (\<exists>x \<in> set ts. \<not> isRemoved x \<and> layer t < layer x \<and>
            \<bar>col x - col t\<bar> < 1 \<and> \<bar>row x - row t\<bar> < 1)
      then False
      else \<not> ((\<exists>x \<in> set ts. \<not> isRemoved x \<and>
                   col x = col t - 1 \<and> row x = row t \<and> layer x = layer t) \<and>
               (\<exists>x \<in> set ts. \<not> isRemoved x \<and>
                   col x = col t + 1 \<and> row x = row t \<and> layer x = layer t)))"
  unfolding checkTileFree_def tileOnTop_iff sideBlocked_iff
  by auto

text \<open>
  C2. For every tile and every collection of tiles handed to the free-state computation
  (the board passes its non-removed tiles), the result is false when a non-removed tile of
  a strictly higher layer lies at column and row distance below 1; otherwise it is false
  exactly when a non-removed tile stands at (column - 1, same row, same layer) and another
  at (column + 1, same row, same layer); it is true in every other case.
\<close>

theorem checkTileFree_rule:
  "checkTileFree t (filter (\<lambda>x. \<not> isRemoved x) ts) =
     (if (\<exists>x \<in> set ts. \<not> isRemoved x \<and> layer t < layer x \<and>
            \<bar>col x - col t\<bar> < 1 \<and> \<bar>row x - row t\<bar> < 1)
      then False
      else \<not> ((\<exists>x \<in> set ts. \<not> isRemoved x \<and>
                   col x = col t - 1 \<and> row x = row t \<and> layer x = layer t) \<and>
               (\<exists>x \<in> set ts. \<not> isRemoved x \<and>
                   col x = col t + 1 \<and> row x = row t \<and> layer x = layer t)))"
  by (rule checkTileFree_iff)

theorem checkTileFree_rule_witness:
  "\<not> checkTileFree
       \<lparr>col = 1, row = 0, layer = 0, tid = 1, tileType = 3, isFree = True, isRemoved = False\<rparr>
       (filter (\<lambda>x. \<not> isRemoved x)
          [\<lparr>col = 0, row = 0, layer = 0, tid = 0, tileType = 3, isFree = True, isRemoved = False\<rparr>,
           \<lparr>col = 1, row = 0, layer = 0, tid = 1, tileType = 3, isFree = True, isRemoved = False\<rparr>,
           \<lparr>col = 2, row = 0, layer = 0, tid = 2, tileType = 5, isFree = True, isRemoved = False\<rparr>])"
  using checkTileFree_rule [of
     "\<lparr>col = 1, row = 0, layer = 0, tid = 1, tileType = 3, isFree = True, isRemoved = False\<rparr>"
     "[\<lparr>col = 0, row = 0, layer = 0, tid = 0, tileType = 3, isFree = True, isRemoved = False\<rparr>,
       \<lparr>col = 1, row = 0, layer = 0, tid = 1, tileType = 3, isFree = True, isRemoved = False\<rparr>,
       \<lparr>col = 2, row = 0, layer = 0, tid = 2, tileType = 5, isFree = True, isRemoved = False\<rparr>]"]
  by simp

text \<open>
  On integer coordinates the comparison with 0.1 is a test for 0; evaluation uses this form.
\<close>

lemma sideBlocked_int [code]:
  "sideBlocked tile [] flags = flags"
  "sideBlocked tile (other # rest) (leftBlocked, rightBlocked) =
     (if other = tile then sideBlocked tile rest (leftBlocked, rightBlocked)
      else if layer other \<noteq> layer tile then sideBlocked tile rest (leftBlocked, rightBlocked)
      else if \<bar>row other - row tile\<bar> \<ge> 1 then sideBlocked tile rest (leftBlocked, rightBlocked)
      else sideBlocked tile rest
        (if col other - (col tile - 1) = 0 then True else leftBlocked,
         if col other - (col tile + 1) = 0 then True else rightBlocked))"
  by (simp_all only: sideBlocked.simps tenth_int_iff)

text \<open>
  The free-state computation reads positions and removed flags only, and \<open>updateFreeTiles\<close>
  stores its result in the flag \<open>isFree\<close> of every non-removed tile: after each
  \<open>updateFreeTiles\<close> (at the end of \<open>create\<close>, \<open>removeTile\<close> and \<open>shuffle\<close>) the flag of a
  non-removed tile is its current free state.
\<close>

lemma checkTileFree_position:
  assumes "col t' = col t" "row t' = row t" "layer t' = layer t"
    and "map (\<lambda>x. (col x, row x, layer x, isRemoved x)) ts' =
         map (\<lambda>x. (col x, row x, layer x, isRemoved x)) ts"
  shows "checkTileFree t' (filter (\<lambda>x. \<not> isRemoved x) ts') =
         checkTileFree t (filter (\<lambda>x. \<not> isRemoved x) ts)"
proof -
  have s: "(\<lambda>x. (col x, row x, layer x, isRemoved x)) ` set ts' =
           (\<lambda>x. (col x, row x, layer x, isRemoved x)) ` set ts"
    using arg_cong[OF assms(4), of set] by simp
  have A: "(\<exists>x \<in> set us. P (col x) (row x) (layer x) (isRemoved x)) =
          (\<exists>p \<in> (\<lambda>x. (col x, row x, layer x, isRemoved x)) ` set us.
              case p of (c, r, l, d) \<Rightarrow> P c r l d)" for us :: "Tile list" and P
    by auto
  have ex: "(\<exists>x \<in> set ts'. P (col x) (row x) (layer x) (isRemoved x)) =
            (\<exists>x \<in> set ts. P (col x) (row x) (layer x) (isRemoved x))" for P
    by (simp only: A s)
  note e1 = ex[of "\<lambda>c r l d. \<not> d \<and> layer t < l \<and> \<bar>c - col t\<bar> < 1 \<and> \<bar>r - row t\<bar> < 1"]
  note e2 = ex[of "\<lambda>c r l d. \<not> d \<and> c = col t - 1 \<and> r = row t \<and> l = layer t"]
  note e3 = ex[of "\<lambda>c r l d. \<not> d \<and> c = col t + 1 \<and> r = row t \<and> l = layer t"]
  show ?thesis
    unfolding checkTileFree_iff assms(1,2,3) e1 e2 e3 ..
qed

lemma updateFreeTiles_current:
  assumes "t \<in> set (updateFreeTiles ts)" and "\<not> isRemoved t"
  shows "isFree t = checkTileFree t (filter (\<lambda>x. \<not> isRemoved x) (updateFreeTiles ts))"
proof -
  let ?A = "filter (\<lambda>x. \<not> isRemoved x) ts"
  obtain u where u: "u \<in> set ts"
    and t: "t = (if isRemoved u then u else setFreeState (checkTileFree u ?A) u)"
    using assms(1) by (auto simp: updateFreeTiles_def Let_def)
  have nr: "\<not> isRemoved u" using t assms(2) by (auto simp: setFreeState_def split: if_splits)
  then have t': "t = setFreeState (checkTileFree u ?A) u" using t by simp
  have pos: "col t = col u" "row t = row u" "layer t = layer u"
    by (simp_all add: t' setFreeState_def)
  have m: "map (\<lambda>x. (col x, row x, layer x, isRemoved x)) (updateFreeTiles ts) =
           map (\<lambda>x. (col x, row x, layer x, isRemoved x)) ts"
    by (simp add: updateFreeTiles_def Let_def setFreeState_def)
  have "isFree t = checkTileFree u ?A" by (simp add: t' setFreeState_def)
  also have "\<dots> = checkTileFree t (filter (\<lambda>x. \<not> isRemoved x) (updateFreeTiles ts))"
    using checkTileFree_position[OF pos m] by simp
  finally show ?thesis .
qed

section \<open>Kind generation\<close>

lemma fold_push_pairs:
  "fold (\<lambda>i ts. ts @ [f i, f i]) xs acc = acc @ concat (map (\<lambda>i. [f i, f i]) xs)"
  by (induction xs arbitrary: acc) auto

lemma padTypes_eq: "padTypes n ts = ts @ replicate (n - length ts) 0"
proof (induction n ts rule: padTypes.induct)
  case (1 n ts)
  show ?case
  proof (cases "length ts < n")
    case True
    have "padTypes n ts = padTypes n (ts @ [0])"
      using True by (subst padTypes.simps) simp
    also have "\<dots> = (ts @ [0]) @ replicate (n - length (ts @ [0])) 0"
      using 1 True by blast
    also have "\<dots> = ts @ replicate (Suc (n - Suc (length ts))) 0"
      by simp
    also have "Suc (n - Suc (length ts)) = n - length ts"
      using True by linarith
    finally show ?thesis .
  next
    case False
    then show ?thesis by (subst padTypes.simps) simp
  qed
qed

lemma length_concat_pairs: "length (concat (map (\<lambda>i. [f i, f i]) xs)) = 2 * length xs"
  by (induction xs) auto

lemma random_index_le:
  assumes "0 \<le> r" "r < 1"
  shows "nat \<lfloor>r * real (i + 1)\<rfloor> \<le> i"
proof -
  have "r * real (i + 1) < real (i + 1)" using assms by simp
  then have "\<lfloor>r * real (i + 1)\<rfloor> < int (i + 1)" by (simp add: floor_less_iff)
  then show ?thesis by linarith
qed

lemma fisherYates_mset:
  "validRandom random \<Longrightarrow> n < length ts \<or> ts = [] \<Longrightarrow> mset (fisherYates random ts n) = mset ts"
proof (induction n arbitrary: ts)
  case 0
  show ?case by simp
next
  case (Suc n)
  let ?j = "nat \<lfloor>random (Suc n) * real (Suc n + 1)\<rfloor>"
  show ?case
  proof (cases "ts = []")
    case True
    then show ?thesis using Suc by (simp add: Let_def)
  next
    case False
    then have len: "Suc n < length ts" using Suc.prems by simp
    have j: "?j \<le> Suc n" using Suc.prems(1) random_index_le[of "random (Suc n)" "Suc n"]
      by (simp add: validRandom_def)
    have sw: "mset (ts[Suc n := ts ! ?j, ?j := ts ! Suc n]) = mset ts"
      using mset_swap[of ?j ts "Suc n"] len j by simp
    have "mset (fisherYates random (ts[Suc n := ts ! ?j, ?j := ts ! Suc n]) n) =
          mset (ts[Suc n := ts ! ?j, ?j := ts ! Suc n])"
      using Suc.IH[OF Suc.prems(1), of "ts[Suc n := ts ! ?j, ?j := ts ! Suc n]"] len by simp
    then show ?thesis using sw by (simp add: Let_def)
  qed
qed

lemma fisherYates_mset_last:
  "validRandom random \<Longrightarrow> mset (fisherYates random ts (length ts - 1)) = mset ts"
  by (rule fisherYates_mset) (cases ts; simp)+

lemma count_concat_pairs:
  "count (mset (concat (map (\<lambda>i. [f i, f i]) xs))) k = 2 * count (mset (map f xs)) k"
  by (induction xs) auto

lemma generate_unfold:
  "generateTileTypesForPairs P random N =
     fisherYates random
       (concat (map (\<lambda>i. [i mod P, i mod P]) [0..<N div 2]) @ replicate (N mod 2) 0)
       (length (concat (map (\<lambda>i. [i mod P, i mod P]) [0..<N div 2]) @ replicate (N mod 2) 0) - 1)"
proof -
  have "N - 2 * (N div 2) = N mod 2" by presburger
  then have "padTypes N (fold (\<lambda>i types. types @ [i mod P, i mod P]) [0..<N div 2] []) =
        concat (map (\<lambda>i. [i mod P, i mod P]) [0..<N div 2]) @ replicate (N mod 2) 0"
    by (simp add: padTypes_eq fold_push_pairs length_concat_pairs)
  then show ?thesis
    unfolding generateTileTypesForPairs_def Let_def by simp
qed

lemma generate_mset:
  assumes "validRandom random"
  shows "mset (generateTileTypesForPairs P random N) =
         mset (concat (map (\<lambda>i. [i mod P, i mod P]) [0..<N div 2]) @ replicate (N mod 2) 0)"
  unfolding generate_unfold using assms by (rule fisherYates_mset_last)


text \<open>
  C5. For every layout size N and every non-empty palette of size P, with the random draws in
  [0, 1): the generated list is a permutation of floor(N / 2) pairs of kinds cycling
  through [0, P), padded with one kind 0 when N is odd; it has length N, holds kinds below P
  only, and when N is even every kind occurs an even number of times.
\<close>

theorem generateTileTypesForPairs_pairs:
  assumes "validRandom random" and "0 < P"
  shows "mset (generateTileTypesForPairs P random N) =
           mset (concat (map (\<lambda>i. [i mod P, i mod P]) [0..<N div 2]) @ replicate (N mod 2) 0) \<and>
         length (generateTileTypesForPairs P random N) = N \<and>
         list_all (\<lambda>k. k < P) (generateTileTypesForPairs P random N) \<and>
         (even N \<longrightarrow> (\<forall>k. even (count (mset (generateTileTypesForPairs P random N)) k)))"
proof -
  let ?g = "generateTileTypesForPairs P random N"
  let ?pre = "concat (map (\<lambda>i. [i mod P, i mod P]) [0..<N div 2]) @ replicate (N mod 2) 0"
  have m: "mset ?g = mset ?pre" using generate_mset[OF assms(1)] .
  have "length ?g = length ?pre" using m by (rule mset_eq_length)
  also have "\<dots> = N" by (simp add: length_concat_pairs)
  finally have l: "length ?g = N" .
  have s: "set ?g = set ?pre" using m by (rule mset_eq_setD)
  have "\<forall>k \<in> set ?pre. k < P" using assms(2) by auto
  then have b: "list_all (\<lambda>k. k < P) ?g" unfolding list_all_iff s .
  have e: "even (count (mset ?g) k)" if "even N" for k
  proof -
    have "N mod 2 = 0" using that by presburger
    then have "count (mset ?pre) k = 2 * count (mset (map (\<lambda>i. i mod P) [0..<N div 2])) k"
      using count_concat_pairs[of "\<lambda>i. i mod P" "[0..<N div 2]" k] by simp
    then show ?thesis unfolding m by simp
  qed
  from m l b e show ?thesis by blast
qed

theorem generateTileTypesForPairs_pairs_witness:
  "validRandom (\<lambda>i. 1 / 2) \<and> (0::nat) < 3 \<and>
   length (generateTileTypesForPairs 3 (\<lambda>i. 1 / 2) 6) = 6 \<and>
   even (count (mset (generateTileTypesForPairs 3 (\<lambda>i. 1 / 2) 6)) 1)"
proof -
  have v: "validRandom (\<lambda>i. 1 / 2)" by (simp add: validRandom_def)
  have p: "(0::nat) < 3" by simp
  have e: "even (6::nat)" by simp
  from generateTileTypesForPairs_pairs [OF v p, of 6] e v p show ?thesis by blast
qed

section \<open>Kind counts of the board\<close>

lemma kindCount_mset:
  "kindCount b k = count (mset (map tileType (filter (\<lambda>t. \<not> isRemoved t) (tiles b)))) k"
proof -
  have "length (filter (\<lambda>t. \<not> isRemoved t \<and> tileType t = k) ts) =
        count (mset (map tileType (filter (\<lambda>t. \<not> isRemoved t) ts))) k" for ts :: "Tile list"
    by (induction ts) auto
  then show ?thesis by (simp add: kindCount_def)
qed

lemma updateFreeTiles_kinds:
  "map tileType (filter (\<lambda>t. \<not> isRemoved t) (updateFreeTiles ts)) =
   map tileType (filter (\<lambda>t. \<not> isRemoved t) ts)"
proof -
  have "map tileType (filter (\<lambda>t. \<not> isRemoved t)
          (map (\<lambda>t. if isRemoved t then t else setFreeState (checkTileFree t A) t) ts)) =
        map tileType (filter (\<lambda>t. \<not> isRemoved t) ts)" for A
    by (induction ts) (auto simp: setFreeState_def)
  then show ?thesis by (simp add: updateFreeTiles_def Let_def)
qed

lemma assignTypes_kinds:
  "length ys = length (filter (\<lambda>t. \<not> isRemoved t) ts) \<Longrightarrow>
   map tileType (filter (\<lambda>t. \<not> isRemoved t) (assignTypes ts ys)) = ys"
proof (induction ts arbitrary: ys)
  case Nil
  then show ?case by simp
next
  case (Cons t ts)
  show ?case
  proof (cases "isRemoved t")
    case True
    then show ?thesis using Cons by simp
  next
    case False
    then obtain y ys' where ys: "ys = y # ys'" using Cons.prems by (cases ys) auto
    then have "length ys' = length (filter (\<lambda>t. \<not> isRemoved t) ts)"
      using Cons.prems False by simp
    then show ?thesis using Cons.IH[of ys'] False ys by (simp add: updateEmoji_def)
  qed
qed

lemma fisherYates_length: "length (fisherYates random ts n) = length ts"
  by (induction n arbitrary: ts) (simp_all add: Let_def)

lemma shuffle_kindCount:
  assumes "validRandom random"
  shows "kindCount (shuffle random b) k = kindCount b k"
proof -
  let ?types = "map tileType (filter (\<lambda>t. \<not> isRemoved t) (tiles b))"
  let ?sh = "fisherYates random ?types (length ?types - 1)"
  have "map tileType (filter (\<lambda>t. \<not> isRemoved t) (tiles (shuffle random b))) = ?sh"
    by (simp add: shuffle_def Let_def updateFreeTiles_kinds assignTypes_kinds fisherYates_length)
  then have "kindCount (shuffle random b) k = count (mset ?sh) k"
    by (simp only: kindCount_mset)
  also have "\<dots> = count (mset ?types) k"
    using fisherYates_mset_last[OF assms, of ?types] by simp
  finally show ?thesis by (simp only: kindCount_mset)
qed

lemma mark_removed_kinds:
  "distinct ts \<Longrightarrow> \<not> isRemoved tile \<Longrightarrow>
   mset (map tileType (filter (\<lambda>t. \<not> isRemoved t)
          (map (\<lambda>t. if t = tile then removeWithAnimation t else t) ts))) +
     (if tile \<in> set ts then {#tileType tile#} else {#}) =
   mset (map tileType (filter (\<lambda>t. \<not> isRemoved t) ts))"
  by (induction ts) (auto simp: removeWithAnimation_def)

lemma removeTile_kinds:
  assumes "tile \<in> set (tiles b)" "\<not> isRemoved tile" "distinct (tiles b)"
  shows "mset (map tileType (filter (\<lambda>t. \<not> isRemoved t) (tiles (fst (removeTile b tile))))) +
           {#tileType tile#} =
         mset (map tileType (filter (\<lambda>t. \<not> isRemoved t) (tiles b)))"
  using mark_removed_kinds[OF assms(3) assms(2)] assms(1)
  by (simp add: removeTile_def Let_def updateFreeTiles_kinds)


text \<open>
  C6, as the code has it. A shuffle leaves, for every kind, the number of non-removed board
  tiles of that kind unchanged. Removing a non-removed tile of the board lowers the number
  for that tile's kind by exactly one and leaves the number of every other kind unchanged:
  the tile goes to the hold area alone, so the parity of its kind on the board flips.
\<close>

theorem board_kind_counts:
  assumes "validRandom random"
    and "tile \<in> set (tiles b)" and "\<not> isRemoved tile" and "distinct (map tid (tiles b))"
  shows "kindCount (shuffle random b) k = kindCount b k \<and>
         0 < kindCount b (tileType tile) \<and>
         kindCount (fst (removeTile b tile)) k =
           (if k = tileType tile then kindCount b k - 1 else kindCount b k)"
proof -
  have d: "distinct (tiles b)" using assms(4) by (simp add: distinct_map)
  have r: "kindCount (fst (removeTile b tile)) j + (if j = tileType tile then 1 else 0) =
      kindCount b j" for j
  proof -
    have "count (mset (map tileType (filter (\<lambda>t. \<not> isRemoved t) (tiles (fst (removeTile b tile))))) +
           {#tileType tile#}) j =
        count (mset (map tileType (filter (\<lambda>t. \<not> isRemoved t) (tiles b)))) j"
      using removeTile_kinds[OF assms(2,3) d] by simp
    then show ?thesis unfolding kindCount_mset by (cases "j = tileType tile") auto
  qed
  show ?thesis using shuffle_kindCount[OF assms(1)] r[of k] r[of "tileType tile"]
    by (auto split: if_splits)
qed


theorem board_kind_counts_witness:
  "kindCount (shuffle (\<lambda>i. 0)
      \<lparr>tiles = [\<lparr>col = 0, row = 0, layer = 0, tid = 0, tileType = 4, isFree = True, isRemoved = False\<rparr>,
                 \<lparr>col = 1, row = 0, layer = 0, tid = 1, tileType = 4, isFree = True, isRemoved = False\<rparr>],
        onWin = True\<rparr>) 4 = 2 \<and>
   kindCount (fst (removeTile
      \<lparr>tiles = [\<lparr>col = 0, row = 0, layer = 0, tid = 0, tileType = 4, isFree = True, isRemoved = False\<rparr>,
                 \<lparr>col = 1, row = 0, layer = 0, tid = 1, tileType = 4, isFree = True, isRemoved = False\<rparr>],
        onWin = True\<rparr>
      \<lparr>col = 0, row = 0, layer = 0, tid = 0, tileType = 4, isFree = True, isRemoved = False\<rparr>)) 4 = 1"
proof -
  have v: "validRandom (\<lambda>i. 0)" by (simp add: validRandom_def)
  show ?thesis
    using board_kind_counts [OF v, of
      "\<lparr>col = 0, row = 0, layer = 0, tid = 0, tileType = 4, isFree = True, isRemoved = False\<rparr>"
      "\<lparr>tiles = [\<lparr>col = 0, row = 0, layer = 0, tid = 0, tileType = 4, isFree = True, isRemoved = False\<rparr>,
                 \<lparr>col = 1, row = 0, layer = 0, tid = 1, tileType = 4, isFree = True, isRemoved = False\<rparr>],
        onWin = True\<rparr>" 4]
    by (simp add: kindCount_def)
qed

text \<open>
  The claim as the specification words it fails at the first turn of a game: in the board
  created with every random draw 0, the tile of layout position 0 has kind 0 and is free;
  once it is removed, one non-removed tile of kind 0 is left.
\<close>

theorem removeTile_parity_counterexample:
  "\<not> (\<forall>k. even (kindCount (fst (removeTile
      (Board_create (\<lambda>i. 0) \<lparr>tiles = [], onWin = False\<rparr>)
      \<lparr>col = 0, row = 0, layer = 0, tid = 0, tileType = 0, isFree = True, isRemoved = False\<rparr>)) k))"
proof -
  have "kindCount (fst (removeTile
      (Board_create (\<lambda>i. 0) \<lparr>tiles = [], onWin = False\<rparr>)
      \<lparr>col = 0, row = 0, layer = 0, tid = 0, tileType = 0, isFree = True, isRemoved = False\<rparr>)) 0 = 1"
    by code_simp
  then show ?thesis by (metis odd_one)
qed

section \<open>Hint search\<close>








section \<open>The hold area: slots, kinds and compaction\<close>

lemma findIndex_None: "(findIndex P xs = None) = (\<forall>x \<in> set xs. \<not> P x)"
  by (induction xs) auto

lemma findIndex_Some:
  "findIndex P xs = Some i \<Longrightarrow> i < length xs \<and> P (xs ! i) \<and> (\<forall>j < i. \<not> P (xs ! j))"
proof (induction xs arbitrary: i)
  case Nil
  then show ?case by simp
next
  case (Cons x xs)
  show ?case
  proof (cases "P x")
    case True
    then show ?thesis using Cons.prems by auto
  next
    case False
    then obtain i' where i': "findIndex P xs = Some i'" "i = Suc i'"
      using Cons.prems by auto
    from Cons.IH[OF i'(1)] False i'(2) show ?thesis
      by (auto simp: less_Suc_eq_0_disj)
  qed
qed

lemma canAddTile_findIndex:
  "canAddTile h = (findIndex (\<lambda>slot. slot = None) (slots h) \<noteq> None)"
  by (simp add: canAddTile_def findIndex_None list_ex_iff)

lemma mset_holdKinds:
  "mset (holdKinds ss) = image_mset the (filter_mset (\<lambda>slot. slot \<noteq> None) (mset ss))"
  by (simp add: holdKinds_def)

lemma holdKinds_insert:
  assumes "i < length ss" "ss ! i = None"
  shows "mset (holdKinds (ss[i := Some k])) = add_mset k (mset (holdKinds ss))"
proof -
  have "mset (ss[i := Some k]) = add_mset (Some k) (mset ss - {#None#})"
    using assms by (simp add: mset_update)
  then show ?thesis
    by (simp add: mset_holdKinds filter_diff_mset)
qed

lemma holdKinds_clear:
  assumes "i < length ss" "ss ! i = Some k"
  shows "add_mset k (mset (holdKinds (ss[i := None]))) = mset (holdKinds ss)"
proof -
  let ?F = "filter_mset (\<lambda>slot. slot \<noteq> None) (mset ss)"
  have m: "mset (ss[i := None]) = add_mset None (mset ss - {#Some k#})"
    using assms by (simp add: mset_update)
  have "Some k \<in># mset ss" using assms by (metis nth_mem_mset)
  then have in_F: "Some k \<in># ?F" by simp
  then have "the (Some k) \<in> the ` set_mset ?F" by (rule imageI)
  then have in_img: "k \<in># image_mset the ?F" by simp
  have "mset (holdKinds (ss[i := None])) = image_mset the (?F - {#Some k#})"
    by (simp add: mset_holdKinds m filter_diff_mset)
  also have "\<dots> = image_mset the ?F - {#k#}"
    using in_F by (simp add: image_mset_Diff)
  finally have "mset (holdKinds (ss[i := None])) = image_mset the ?F - {#k#}" .
  then show ?thesis using in_img by (simp add: mset_holdKinds)
qed

lemma count_holdKinds: "count (mset (holdKinds ss)) k = length (filter (\<lambda>slot. slot = Some k) ss)"
  by (induction ss) (auto simp: holdKinds_def)

lemma filter_indices:
  "map (\<lambda>j. ss ! j) (filter (\<lambda>j. P (ss ! j)) [0..<length ss]) = filter P ss"
proof -
  have "filter P (map (\<lambda>j. ss ! j) [0..<length ss]) = filter P ss"
    by (simp add: map_nth)
  then show ?thesis by (simp add: filter_map o_def)
qed

lemma matching_count:
  "length (filter (\<lambda>j. ss ! j = Some k) [0..<length ss]) = count (mset (holdKinds ss)) k"
proof -
  have "length (map (\<lambda>j. ss ! j) (filter (\<lambda>j. ss ! j = Some k) [0..<length ss])) =
        length (filter (\<lambda>slot. slot = Some k) ss)"
    by (simp only: filter_indices[of ss "\<lambda>slot. slot = Some k"])
  then show ?thesis by (simp add: count_holdKinds)
qed

lemma clear_slot_eq: "(if ss ! i \<noteq> None then ss[i := None] else ss) = ss[i := None]"
proof (cases "i < length ss")
  case True
  then show ?thesis by (metis list_update_id)
next
  case False
  then show ?thesis by (simp add: list_update_beyond not_less)
qed

lemma clear_fun_eq:
  "(\<lambda>i ss. if ss ! i \<noteq> None then ss[i := None] else ss) = (\<lambda>i (ss :: nat option list). ss[i := None])"
  by (intro ext) (rule clear_slot_eq)

lemma fold_clear:
  "distinct js \<Longrightarrow> \<forall>j \<in> set js. j < length ss \<and> ss ! j = Some k \<Longrightarrow>
   mset (holdKinds (fold (\<lambda>i ss. if ss ! i \<noteq> None then ss[i := None] else ss) js ss)) +
     replicate_mset (length js) k = mset (holdKinds ss) \<and>
   length (fold (\<lambda>i ss. if ss ! i \<noteq> None then ss[i := None] else ss) js ss) = length ss"
  unfolding clear_fun_eq
proof (induction js arbitrary: ss)
  case Nil
  show ?case by simp
next
  case (Cons j js)
  let ?ss = "ss[j := None]"
  have j: "j < length ss" "ss ! j = Some k" using Cons.prems(2) by auto
  have "\<forall>i \<in> set js. i < length ?ss \<and> ?ss ! i = Some k"
  proof
    fix i assume i: "i \<in> set js"
    then have "i \<noteq> j" using Cons.prems(1) by auto
    then show "i < length ?ss \<and> ?ss ! i = Some k"
      using Cons.prems(2) i by simp
  qed
  with Cons.IH[of ?ss] Cons.prems(1)
  have ih: "mset (holdKinds (fold (\<lambda>i ss. ss[i := None]) js ?ss)) +
     replicate_mset (length js) k = mset (holdKinds ?ss)"
   "length (fold (\<lambda>i ss. ss[i := None]) js ?ss) = length ss"
    by auto
  have "mset (holdKinds (fold (\<lambda>i ss. ss[i := None]) js ?ss)) +
     replicate_mset (length (j # js)) k = add_mset k (mset (holdKinds ?ss))"
    using ih(1) by simp
  also have "\<dots> = mset (holdKinds ss)" using holdKinds_clear[OF j] .
  finally show ?case using ih(2) by simp
qed

lemma fold_assign:
  "m \<le> length xs \<Longrightarrow>
   fold (\<lambda>i ss. ss[i := f i]) [0..<m] xs = map f [0..<m] @ drop m xs"
proof (induction m)
  case 0
  show ?case by simp
next
  case (Suc m)
  then have "drop m xs = xs ! m # drop (Suc m) xs"
    by (simp add: Cons_nth_drop_Suc)
  then show ?case using Suc
    by (simp add: list_update_append)
qed

lemma compactSlots_slots:
  "slots (compactSlots h) =
     map Some (holdKinds (slots h)) @
     replicate (length (slots h) - length (holdKinds (slots h))) None"
proof -
  let ?c = "holdKinds (slots h)"
  have le: "length ?c \<le> length (slots h)" by (simp add: holdKinds_def)
  have "fold (\<lambda>i ss. ss[i := Some (?c ! i)]) [0..<length ?c] (map (\<lambda>slot. None) (slots h)) =
        map (\<lambda>i. Some (?c ! i)) [0..<length ?c] @ drop (length ?c) (map (\<lambda>slot. None) (slots h))"
    using le by (intro fold_assign) simp
  also have "map (\<lambda>i. Some (?c ! i)) [0..<length ?c] = map Some ?c"
    by (simp add: map_nth flip: map_map[unfolded o_def])
  also have "drop (length ?c) (map (\<lambda>slot. None) (slots h)) =
             replicate (length (slots h) - length ?c) None"
    by (simp add: map_replicate_const)
  finally show ?thesis by (simp add: compactSlots_def Let_def holdKinds_def)
qed

lemma holdKinds_prefix: "holdKinds (map Some ks @ replicate n None) = ks"
  by (simp add: holdKinds_def filter_map o_def)

lemma contiguous_prefix: "contiguousFromZero (map Some ks @ replicate n None)"
proof -
  have "length (filter (\<lambda>slot. slot \<noteq> None) (map Some ks @ replicate n None)) = length ks"
    by (simp add: filter_map o_def)
  then show ?thesis
    by (auto simp: contiguousFromZero_def nth_append)
qed

lemma compactSlots_props:
  "holdKinds (slots (compactSlots h)) = holdKinds (slots h) \<and>
   length (slots (compactSlots h)) = length (slots h) \<and>
   contiguousFromZero (slots (compactSlots h))"
proof -
  have "length (holdKinds (slots h)) \<le> length (slots h)" by (simp add: holdKinds_def)
  then show ?thesis
    by (simp add: compactSlots_slots holdKinds_prefix contiguous_prefix)
qed

lemma countTypes_fold:
  "distinct (map fst acc) \<Longrightarrow>
   distinct (map fst (fold (\<lambda>slot typeCounts.
             case slot of
               None \<Rightarrow> typeCounts
             | Some t \<Rightarrow>
                 AList.update t (getOrZero typeCounts t + 1) typeCounts) ss acc)) \<and>
   (\<forall>k. getOrZero (fold (\<lambda>slot typeCounts.
             case slot of
               None \<Rightarrow> typeCounts
             | Some t \<Rightarrow>
                 AList.update t (getOrZero typeCounts t + 1) typeCounts) ss acc) k = getOrZero acc k + count (mset (holdKinds ss)) k)"
proof (induction ss arbitrary: acc)
  case Nil
  then show ?case by (simp add: holdKinds_def)
next
  case (Cons s ss)
  show ?case
  proof (cases s)
    case None
    then show ?thesis using Cons by (simp add: holdKinds_def)
  next
    case (Some t)
    let ?acc = "AList.update t (getOrZero acc t + 1) acc"
    have d: "distinct (map fst ?acc)" using Cons.prems by (rule distinct_update)
    have c: "getOrZero ?acc k = getOrZero acc k + (if k = t then 1 else 0)" for k
      by (simp add: getOrZero_def update_conv')
    from Cons.IH[OF d] c Some show ?thesis
      by (simp add: holdKinds_def)
  qed
qed

lemma duplicate_iff: "(\<exists>k. 2 \<le> count (mset xs) k) = (\<not> distinct xs)"
proof
  assume "\<exists>k. 2 \<le> count (mset xs) k"
  then obtain k where "2 \<le> count (mset xs) k" ..
  then show "\<not> distinct xs"
    by (metis distinct_count_atmost_1 not_numeral_le_zero numeral_le_one_iff semiring_norm(69))
next
  assume "\<not> distinct xs"
  then obtain k where ne: "count (mset xs) k \<noteq> (if k \<in> set xs then 1 else 0)"
    unfolding distinct_count_atmost_1 by blast
  have "2 \<le> count (mset xs) k"
  proof (cases "k \<in> set xs")
    case True
    have neq: "count (mset xs) k \<noteq> 1" using ne True by simp
    have pos: "0 < count (mset xs) k" using True by simp
    from pos neq show ?thesis by linarith
  next
    case False
    have neq: "count (mset xs) k \<noteq> 0" using ne False by simp
    have "count (mset xs) k = 0" using False by (simp add: count_eq_zero_iff)
    with neq show ?thesis by blast
  qed
  then show "\<exists>k. 2 \<le> count (mset xs) k" ..
qed

lemma hasMatch_iff:
  "list_ex (\<lambda>c. c \<ge> 2) (map snd (countTypes ss)) = (\<not> distinct (holdKinds ss))"
proof -
  let ?al = "countTypes ss"
  have d: "distinct (map fst ?al)" and c: "\<And>k. getOrZero ?al k = count (mset (holdKinds ss)) k"
    using countTypes_fold[of "[]" ss] by (simp_all add: countTypes_def getOrZero_def)
  have "list_ex (\<lambda>c. c \<ge> 2) (map snd ?al) = (\<exists>k c. (k, c) \<in> set ?al \<and> 2 \<le> c)"
    unfolding list_ex_iff by force
  also have "\<dots> = (\<exists>k c. map_of ?al k = Some c \<and> 2 \<le> c)"
    using d by (simp add: map_of_eq_Some_iff)
  also have "\<dots> = (\<exists>k. 2 \<le> getOrZero ?al k)"
    by (auto simp: getOrZero_def split: option.splits)
  also have "\<dots> = (\<exists>k. 2 \<le> count (mset (holdKinds ss)) k)"
    by (simp add: c)
  also have "\<dots> = (\<not> distinct (holdKinds ss))"
    by (rule duplicate_iff)
  finally show ?thesis .
qed

section \<open>The effect of adding a tile\<close>

lemma addTile_full: "\<not> canAddTile h \<Longrightarrow> addTile h t = (h, (False, 0), [])"
  by (simp add: canAddTile_findIndex addTile_def)

lemma all_occupied_iff:
  "list_ex (\<lambda>slot. slot = None) ss = (length (filter (\<lambda>slot. slot \<noteq> None) ss) \<noteq> length ss)"
proof -
  have "length (filter (\<lambda>slot. slot \<noteq> None) ss) + length (filter (\<lambda>slot. \<not> slot \<noteq> None) ss) =
        length ss"
    by (rule sum_length_filter_compl)
  then have "(length (filter (\<lambda>slot. slot \<noteq> None) ss) \<noteq> length ss) =
             (length (filter (\<lambda>slot. \<not> slot \<noteq> None) ss) \<noteq> 0)"
    by linarith
  also have "\<dots> = list_ex (\<lambda>slot. slot = None) ss"
    by (simp add: filter_empty_conv list_ex_iff)
  finally show ?thesis by simp
qed

lemma addTile_insert:
  assumes "findIndex (\<lambda>slot. slot = None) (slots h) = Some i"
  shows "addTile h t =
    (if 2 \<le> count (mset (holdKinds ((slots h)[i := Some (tileType t)]))) (tileType t) then
       (compactSlots (h\<lparr>slots := fold (\<lambda>i ss. if ss ! i \<noteq> None then ss[i := None] else ss)
           (take 2 (filter (\<lambda>j. (slots h)[i := Some (tileType t)] ! j = Some (tileType t))
                      [0..<length (slots h)])) ((slots h)[i := Some (tileType t)])\<rparr>),
        (True, 2), if onMatch h then [OnMatch (tileType t) 2] else [])
     else (h\<lparr>slots := (slots h)[i := Some (tileType t)]\<rparr>, (False, 0),
           if \<not> list_ex (\<lambda>slot. slot = None) ((slots h)[i := Some (tileType t)]) \<and>
              distinct (holdKinds ((slots h)[i := Some (tileType t)])) \<and> onGameOver h
           then [OnGameOver] else []))"
proof -
  have m: "length (filter (\<lambda>j. (slots h)[i := Some (tileType t)] ! j = Some (tileType t))
                      [0..<length (slots h)]) =
           count (mset (holdKinds ((slots h)[i := Some (tileType t)]))) (tileType t)"
    using matching_count[of "(slots h)[i := Some (tileType t)]" "tileType t"] by simp
  show ?thesis
    using assms
    by (simp add: addTile_def Let_def handleMatch_def m hasMatch_iff canAddTile_def
        compactSlots_def)
qed

lemma addTile_effect:
  assumes "canAddTile h"
  shows "fst (fst (snd (addTile h t))) = (tileType t \<in> set (holdKinds (slots h))) \<and>
         (if fst (fst (snd (addTile h t)))
          then add_mset (tileType t) (mset (holdKinds (slots (fst (addTile h t))))) =
                 mset (holdKinds (slots h))
          else mset (holdKinds (slots (fst (addTile h t)))) =
                 add_mset (tileType t) (mset (holdKinds (slots h)))) \<and>
         length (slots (fst (addTile h t))) = length (slots h) \<and>
         onMatch (fst (addTile h t)) = onMatch h \<and>
         onGameOver (fst (addTile h t)) = onGameOver h"
proof -
  let ?k = "tileType t"
  obtain i where i: "findIndex (\<lambda>slot. slot = None) (slots h) = Some i"
    using assms by (auto simp: canAddTile_findIndex)
  let ?ss1 = "(slots h)[i := Some ?k]"
  let ?ms = "filter (\<lambda>j. ?ss1 ! j = Some ?k) [0..<length (slots h)]"
  have il: "i < length (slots h)" "slots h ! i = None"
    using findIndex_Some[OF i] by auto
  have ins: "mset (holdKinds ?ss1) = add_mset ?k (mset (holdKinds (slots h)))"
    using holdKinds_insert[OF il] .
  have cnt: "count (mset (holdKinds ?ss1)) ?k = Suc (count (mset (holdKinds (slots h))) ?k)"
    by (simp add: ins)
  have mem: "(2 \<le> count (mset (holdKinds ?ss1)) ?k) = (?k \<in> set (holdKinds (slots h)))"
    unfolding cnt by (simp add: Suc_le_eq)
  show ?thesis
  proof (cases "2 \<le> count (mset (holdKinds ?ss1)) ?k")
    case False
    then show ?thesis
      using mem ins by (simp add: addTile_insert[OF i])
  next
    case True
    have lm: "length ?ms = count (mset (holdKinds ?ss1)) ?k"
      using matching_count[of ?ss1 ?k] by simp
    have d: "distinct (take 2 ?ms)" by (simp add: distinct_take)
    have v: "\<forall>j \<in> set (take 2 ?ms). j < length ?ss1 \<and> ?ss1 ! j = Some ?k"
    proof
      fix j assume "j \<in> set (take 2 ?ms)"
      then have "j \<in> set ?ms" by (rule in_set_takeD)
      then show "j < length ?ss1 \<and> ?ss1 ! j = Some ?k" by simp
    qed
    have l2: "length (take 2 ?ms) = 2" using True lm by simp
    let ?cl = "fold (\<lambda>i ss. if ss ! i \<noteq> None then ss[i := None] else ss) (take 2 ?ms) ?ss1"
    from fold_clear[OF d v] l2
    have fc: "mset (holdKinds ?cl) + replicate_mset 2 ?k = mset (holdKinds ?ss1)"
      and fl: "length ?cl = length (slots h)"
      by simp_all
    have "add_mset ?k (add_mset ?k (mset (holdKinds ?cl))) = add_mset ?k (mset (holdKinds (slots h)))"
      using fc ins by (simp add: numeral_2_eq_2)
    then have r: "add_mset ?k (mset (holdKinds ?cl)) = mset (holdKinds (slots h))"
      by simp
    have cp: "holdKinds (slots (compactSlots (h\<lparr>slots := ?cl\<rparr>))) = holdKinds ?cl"
       "length (slots (compactSlots (h\<lparr>slots := ?cl\<rparr>))) = length ?cl"
      using compactSlots_props[of "h\<lparr>slots := ?cl\<rparr>"] by simp_all
    have cb: "onMatch (compactSlots (h\<lparr>slots := ?cl\<rparr>)) = onMatch h"
       "onGameOver (compactSlots (h\<lparr>slots := ?cl\<rparr>)) = onGameOver h"
      by (simp_all add: compactSlots_def Let_def)
    show ?thesis
      using True mem r fl cp cb by (simp add: addTile_insert[OF i])
  qed
qed

lemma getTileCount_holdKinds: "getTileCount h = length (holdKinds (slots h))"
  by (simp add: getTileCount_def holdKinds_def)

lemma addTile_count:
  assumes "canAddTile h"
  shows "if fst (fst (snd (addTile h t)))
         then Suc (getTileCount (fst (addTile h t))) = getTileCount h
         else getTileCount (fst (addTile h t)) = Suc (getTileCount h)"
proof -
  from addTile_effect[OF assms, of t]
  have e: "if fst (fst (snd (addTile h t)))
          then add_mset (tileType t) (mset (holdKinds (slots (fst (addTile h t))))) =
                 mset (holdKinds (slots h))
          else mset (holdKinds (slots (fst (addTile h t)))) =
                 add_mset (tileType t) (mset (holdKinds (slots h)))"
    by blast
  show ?thesis
  proof (cases "fst (fst (snd (addTile h t)))")
    case True
    then have "size (add_mset (tileType t) (mset (holdKinds (slots (fst (addTile h t)))))) =
               size (mset (holdKinds (slots h)))" using e by simp
    then show ?thesis using True by (simp add: getTileCount_holdKinds)
  next
    case False
    then have "size (mset (holdKinds (slots (fst (addTile h t))))) =
               size (add_mset (tileType t) (mset (holdKinds (slots h))))" using e by simp
    then show ?thesis using False by (simp add: getTileCount_holdKinds)
  qed
qed

section \<open>Invariants of the hold area\<close>




section \<open>Contiguity, the loss signal and distinct kinds\<close>




text \<open>
  C4. In a hold area of four slots whose callback \<open>onGameOver\<close> is assigned, \<open>addTile\<close> calls
  \<open>onGameOver\<close> if and only if it inserts the tile (a first empty slot exists) and, right
  after the insertion, all four slots are occupied and no kind occurs twice or more among
  them; and a call that returns \<open>matched\<close> never calls \<open>onGameOver\<close>.
\<close>

theorem addTile_gameOver_iff:
  assumes "length (slots h) = SLOT_COUNT" and "onGameOver h"
  shows "(OnGameOver \<in> set (snd (snd (addTile h tile)))) =
           (\<exists>i. findIndex (\<lambda>slot. slot = None) (slots h) = Some i \<and>
                getTileCount (h\<lparr>slots := (slots h)[i := Some (tileType tile)]\<rparr>) = 4 \<and>
                \<not> (\<exists>k. 2 \<le> count (mset (holdKinds ((slots h)[i := Some (tileType tile)]))) k)) \<and>
         (fst (fst (snd (addTile h tile))) \<longrightarrow> OnGameOver \<notin> set (snd (snd (addTile h tile))))"
proof (cases "findIndex (\<lambda>slot. slot = None) (slots h)")
  case None
  then have "\<not> canAddTile h" by (simp add: canAddTile_findIndex)
  then show ?thesis using None by (simp add: addTile_full)
next
  case (Some i)
  let ?ss1 = "(slots h)[i := Some (tileType tile)]"
  have full: "(\<not> list_ex (\<lambda>slot. slot = None) ?ss1) =
              (getTileCount (h\<lparr>slots := ?ss1\<rparr>) = 4)"
    using assms(1) by (simp add: all_occupied_iff getTileCount_def SLOT_COUNT_def)
  show ?thesis
  proof (cases "2 \<le> count (mset (holdKinds ?ss1)) (tileType tile)")
    case True
    then have "\<exists>k. 2 \<le> count (mset (holdKinds ?ss1)) k" by blast
    then show ?thesis using True Some by (simp add: addTile_insert[OF Some])
  next
    case False
    have dd: "distinct (holdKinds ?ss1) = (\<not> (\<exists>k. 2 \<le> count (mset (holdKinds ?ss1)) k))"
      using duplicate_iff[of "holdKinds ?ss1"] by blast
    show ?thesis
      using False Some assms(2) full
      by (simp add: addTile_insert[OF Some] dd)
  qed
qed

theorem addTile_gameOver_iff_witness:
  "length (slots \<lparr>slots = [Some 1, Some 2, Some 3, None], onMatch = True, onGameOver = True\<rparr>) = SLOT_COUNT \<and>
   onGameOver \<lparr>slots = [Some 1, Some 2, Some 3, None], onMatch = True, onGameOver = True\<rparr> \<and>
   OnGameOver \<in> set (snd (snd (addTile
      \<lparr>slots = [Some 1, Some 2, Some 3, None], onMatch = True, onGameOver = True\<rparr>
      \<lparr>col = 0, row = 0, layer = 0, tid = 0, tileType = 4, isFree = True, isRemoved = True\<rparr>))) \<and>
   OnGameOver \<notin> set (snd (snd (addTile
      \<lparr>slots = [Some 1, Some 2, Some 3, None], onMatch = True, onGameOver = True\<rparr>
      \<lparr>col = 0, row = 0, layer = 0, tid = 0, tileType = 2, isFree = True, isRemoved = True\<rparr>)))"
proof -
  let ?h = "\<lparr>slots = [Some 1, Some 2, Some 3, None], onMatch = True, onGameOver = True\<rparr>"
  have l: "length (slots ?h) = SLOT_COUNT" by (simp add: SLOT_COUNT_def)
  have g: "onGameOver ?h" by simp
  have a: "OnGameOver \<in> set (snd (snd (addTile ?h
      \<lparr>col = 0, row = 0, layer = 0, tid = 0, tileType = 4, isFree = True, isRemoved = True\<rparr>)))"
    by code_simp
  have m: "fst (fst (snd (addTile ?h
      \<lparr>col = 0, row = 0, layer = 0, tid = 0, tileType = 2, isFree = True, isRemoved = True\<rparr>)))"
    by code_simp
  from addTile_gameOver_iff[OF l g, of
      "\<lparr>col = 0, row = 0, layer = 0, tid = 0, tileType = 2, isFree = True, isRemoved = True\<rparr>"] m
  have "OnGameOver \<notin> set (snd (snd (addTile ?h
      \<lparr>col = 0, row = 0, layer = 0, tid = 0, tileType = 2, isFree = True, isRemoved = True\<rparr>)))"
    by blast
  with l g a show ?thesis by blast
qed




section \<open>The session: board operations and callbacks\<close>

lemma updateFreeTiles_tid: "map tid (updateFreeTiles ts) = map tid ts"
  by (simp add: updateFreeTiles_def Let_def setFreeState_def)

lemma updateFreeTiles_removed: "map isRemoved (updateFreeTiles ts) = map isRemoved ts"
  by (simp add: updateFreeTiles_def Let_def setFreeState_def)

lemma remaining_count_kinds:
  "getRemainingCount b = length (map tileType (filter (\<lambda>t. \<not> isRemoved t) (tiles b)))"
  by (simp add: getRemainingCount_def)

lemma removeTile_tid: "map tid (tiles (fst (removeTile b tile))) = map tid (tiles b)"
  by (simp add: removeTile_def Let_def updateFreeTiles_tid removeWithAnimation_def o_def)

lemma removeTile_onWin: "onWin (fst (removeTile b tile)) = onWin b"
  by (simp add: removeTile_def Let_def)

lemma removeTile_signals:
  "snd (removeTile b tile) =
     (if getRemainingCount (fst (removeTile b tile)) = 0 \<and> onWin b then [OnWin] else [])"
  by (simp add: removeTile_def Let_def getRemainingCount_def)

lemma removeTile_count:
  assumes "tile \<in> set (tiles b)" "\<not> isRemoved tile" "distinct (map tid (tiles b))"
  shows "Suc (getRemainingCount (fst (removeTile b tile))) = getRemainingCount b"
proof -
  have d: "distinct (tiles b)" using assms(3) by (simp add: distinct_map)
  have "length (map tileType (filter (\<lambda>t. \<not> isRemoved t) (tiles b))) =
        length (tileType tile # map tileType (filter (\<lambda>t. \<not> isRemoved t) (tiles (fst (removeTile b tile)))))"
    by (rule mset_eq_length) (use removeTile_kinds[OF assms(1,2) d] in simp)
  then show ?thesis by (simp add: getRemainingCount_def)
qed

lemma assignTypes_tid: "map tid (assignTypes ts ys) = map tid ts"
  by (induction ts ys rule: assignTypes.induct) (auto simp: updateEmoji_def split: list.splits)

lemma assignTypes_removed: "map isRemoved (assignTypes ts ys) = map isRemoved ts"
  by (induction ts ys rule: assignTypes.induct) (auto simp: updateEmoji_def split: list.splits)

lemma count_by_flags:
  "length (filter (\<lambda>t. \<not> isRemoved t) ts) = length (filter (\<lambda>r. \<not> r) (map isRemoved ts))"
  by (simp add: filter_map o_def)

lemma shuffle_tid: "map tid (tiles (shuffle random b)) = map tid (tiles b)"
  by (simp add: shuffle_def Let_def updateFreeTiles_tid assignTypes_tid)

lemma shuffle_count: "getRemainingCount (shuffle random b) = getRemainingCount b"
  by (simp add: getRemainingCount_def count_by_flags shuffle_def Let_def
      updateFreeTiles_removed assignTypes_removed)

lemma length_getLayout: "length getLayout = 44"
  by code_simp

lemma Board_create_fresh:
  "map tid (tiles (Board_create random \<lparr>tiles = [], onWin = w\<rparr>)) = [0..<44] \<and>
   getRemainingCount (Board_create random \<lparr>tiles = [], onWin = w\<rparr>) = 44 \<and>
   onWin (Board_create random \<lparr>tiles = [], onWin = w\<rparr>) = w"
  by (simp add: Board_create_def Let_def getRemainingCount_def count_by_flags
      updateFreeTiles_tid updateFreeTiles_removed o_def length_getLayout map_replicate_const
      flip: replicate_length_filter)

lemma GameScene_onWin_state:
  "board (fst (GameScene_onWin s)) = board s \<and>
   holdArea (fst (GameScene_onWin s)) = holdArea s \<and>
   isProcessing (fst (GameScene_onWin s)) = isProcessing s \<and>
   (ShowWinScreen \<in> set (snd (GameScene_onWin s))) = (getTileCount (holdArea s) = 0)"
  by (simp add: GameScene_onWin_def showWinScreen_def)

lemma boardCallbacks_state:
  "board (fst (boardCallbacks sigs s)) = board s \<and>
   holdArea (fst (boardCallbacks sigs s)) = holdArea s \<and>
   isProcessing (fst (boardCallbacks sigs s)) = isProcessing s"
proof (induction sigs arbitrary: s)
  case Nil
  show ?case by simp
next
  case (Cons x sigs)
  show ?case
    using Cons[of "fst (GameScene_onWin s)"] GameScene_onWin_state[of s]
    by (cases x) (simp add: case_prod_beta)
qed

lemma boardCallbacks_win:
  "ShowWinScreen \<in> set (snd (boardCallbacks sigs s)) \<Longrightarrow>
   sigs \<noteq> [] \<and> getTileCount (holdArea s) = 0"
proof (induction sigs arbitrary: s)
  case Nil
  then show ?case by simp
next
  case (Cons x sigs)
  from Cons.prems
  have "ShowWinScreen \<in> set (snd (GameScene_onWin s)) \<or>
        ShowWinScreen \<in> set (snd (boardCallbacks sigs (fst (GameScene_onWin s))))"
    by (cases x) (simp add: case_prod_beta)
  then show ?case
    using Cons.IH[of "fst (GameScene_onWin s)"] GameScene_onWin_state[of s] by auto
qed

lemma holdCallbacks_state:
  "board (fst (holdCallbacks now sigs s)) = board s \<and>
   holdArea (fst (holdCallbacks now sigs s)) = holdArea s \<and>
   isProcessing (fst (holdCallbacks now sigs s)) = isProcessing s \<and>
   ShowWinScreen \<notin> set (snd (holdCallbacks now sigs s))"
proof (induction sigs arbitrary: s)
  case Nil
  show ?case by simp
next
  case (Cons x sigs)
  show ?case
  proof (cases x)
    case (OnMatch t c)
    have "board (onHoldMatch now s) = board s \<and> holdArea (onHoldMatch now s) = holdArea s \<and>
          isProcessing (onHoldMatch now s) = isProcessing s"
      by (simp add: onHoldMatch_def Let_def)
    then show ?thesis using Cons[of "onHoldMatch now s"] OnMatch by simp
  next
    case OnGameOver
    show ?thesis using Cons[of "s\<lparr>overlayVisible := True\<rparr>"] OnGameOver
      by (simp add: onHoldAreaFull_def showGameOverScreen_def case_prod_beta)
  qed
qed

section \<open>The session: turns\<close>

lemma onTileSelected_turn:
  assumes "\<not> overlayVisible s" "\<not> isProcessing s" "canAddTile (holdArea s)"
  shows "board (fst (onTileSelected now tile s)) = fst (removeTile (board s) tile) \<and>
         holdArea (fst (onTileSelected now tile s)) = fst (addTile (holdArea s) tile) \<and>
         isProcessing (fst (onTileSelected now tile s)) = False \<and>
         (ShowWinScreen \<in> set (snd (onTileSelected now tile s))) =
           (ShowWinScreen \<in> set (snd (boardCallbacks (snd (removeTile (board s) tile))
                (s\<lparr>isProcessing := True, board := fst (removeTile (board s) tile)\<rparr>))) \<or>
            (getRemainingCount (fst (removeTile (board s) tile)) = 0 \<and>
             getTileCount (fst (addTile (holdArea s) tile)) = 0))"
  using assms
  by (simp add: onTileSelected_def Let_def case_prod_beta showWinScreen_def
      boardCallbacks_state holdCallbacks_state)

lemma onTileSelected_rejected:
  "overlayVisible s \<or> \<not> canAddTile (holdArea s) \<Longrightarrow>
   fst (onTileSelected now tile s) = s \<and> ShowWinScreen \<notin> set (snd (onTileSelected now tile s))"
  by (auto simp: onTileSelected_def)

lemma shuffle_removed: "map isRemoved (tiles (shuffle random b)) = map isRemoved (tiles b)"
  by (simp add: shuffle_def Let_def updateFreeTiles_removed assignTypes_removed)



section \<open>A turn in its parts\<close>

text \<open>
  The two halves of \<open>Board.removeTile\<close> make the whole, and a turn whose stops are resumed
  one after the other, with no other handler in between, is the turn \<open>onTileSelected\<close> run
  to its end: the functions of \<open>removePromises\<close> then find their tiles in place, and no
  \<open>TypeError\<close> is thrown.
\<close>

lemma removeTile_parts: "removeTile_finish (removeTile_start b tile) = removeTile b tile"
  by (simp add: removeTile_finish_def removeTile_start_def removeTile_def Let_def)

lemma destroySlotTiles_present:
  "distinct js \<Longrightarrow> \<forall>j \<in> set js. j < length ss \<and> ss ! j \<noteq> None \<Longrightarrow>
   destroySlotTiles js ss =
     (fold (\<lambda>i ss. if ss ! i \<noteq> None then ss[i := None] else ss) js ss, False)"
proof (induction js arbitrary: ss)
  case Nil
  show ?case by simp
next
  case (Cons j js)
  have j: "j < length ss" "ss ! j \<noteq> None" using Cons.prems(2) by auto
  have "\<forall>i \<in> set js. i < length (ss[j := None]) \<and> ss[j := None] ! i \<noteq> None"
  proof
    fix i assume i: "i \<in> set js"
    then have "i \<noteq> j" using Cons.prems(1) by auto
    then show "i < length (ss[j := None]) \<and> ss[j := None] ! i \<noteq> None"
      using Cons.prems(2) i by simp
  qed
  with Cons.IH[of "ss[j := None]"] Cons.prems(1)
  have "destroySlotTiles js (ss[j := None]) =
     (fold (\<lambda>i ss. if ss ! i \<noteq> None then ss[i := None] else ss) js (ss[j := None]), False)"
    by simp
  moreover obtain y where "ss ! j = Some y" using j(2) by auto
  ultimately show ?case by simp
qed

lemma finishTurn_scene:
  "finishTurn ss =
     (ss\<lparr>scene := (fst (if getRemainingCount (board (scene ss)) = 0 \<and>
                            getTileCount (holdArea (scene ss)) = 0
                         then showWinScreen (scene ss) else (scene ss, [])))\<lparr>isProcessing := False\<rparr>\<rparr>,
      snd (if getRemainingCount (board (scene ss)) = 0 \<and> getTileCount (holdArea (scene ss)) = 0
           then showWinScreen (scene ss) else (scene ss, [])))"
  by (simp add: finishTurn_def Let_def case_prod_beta)

lemma resumeAll_step:
  "suspended ss \<noteq> [] \<Longrightarrow> resume now 0 ss = (ss1, out1) \<Longrightarrow>
   resumeAll now (Suc n) (ss, out) = resumeAll now n (ss1, out @ out1)"
  by simp

lemma resumeAll_done: "suspended ss = [] \<Longrightarrow> resumeAll now n (ss, out) = (ss, out)"
  by (cases n) simp_all

lemma finishTurn_suspended: "suspended (fst (finishTurn ss)) = suspended ss"
  by (simp add: finishTurn_scene)

lemma runTurn_record:
  "runTurn now tile \<lparr>scene = s, suspended = []\<rparr> =
           (\<lparr>scene = fst (onTileSelected now tile s), suspended = []\<rparr>,
            snd (onTileSelected now tile s))"
proof (cases "overlayVisible s \<or> isProcessing s \<or> \<not> canAddTile (holdArea s)")
  case True
  have "onTileSelected_start tile \<lparr>scene = s, suspended = []\<rparr> =
          (\<lparr>scene = fst (onTileSelected now tile s), suspended = []\<rparr>,
           snd (onTileSelected now tile s))"
    using True by (auto simp: onTileSelected_start_def onTileSelected_def)
  then show ?thesis
    by (simp add: runTurn_def resumeAll_done)
next
  case False
  let ?ss = "\<lparr>scene = s, suspended = []\<rparr>"
  let ?k = "tileType tile"
  obtain i where i: "findIndex (\<lambda>slot. slot = None) (slots (holdArea s)) = Some i"
    using False by (auto simp: canAddTile_findIndex)
  let ?s1 = "s\<lparr>isProcessing := True, board := fst (removeTile (board s) tile)\<rparr>"
  let ?bc = "boardCallbacks (snd (removeTile (board s) tile)) ?s1"
  let ?s2 = "fst ?bc"
  have h2: "holdArea ?s2 = holdArea s" by (simp add: boardCallbacks_state)
  let ?ss1 = "(slots (holdArea s))[i := Some ?k]"
  let ?h1 = "(holdArea s)\<lparr>slots := ?ss1\<rparr>"
  let ?ms = "filter (\<lambda>j. ?ss1 ! j = Some ?k) [0..<length (slots (holdArea s))]"
  let ?A = "\<lparr>scene = ?s2\<lparr>holdArea := ?h1\<rparr>, suspended = [InAddTile ?k]\<rparr>"
  let ?Sstart = "\<lparr>scene = s\<lparr>isProcessing := True, board := removeTile_start (board s) tile\<rparr>,
          suspended = [InRemoveTile ThisBoard tile]\<rparr>"
  have start: "onTileSelected_start tile ?ss = (?Sstart, [])"
    using False by (simp add: onTileSelected_start_def Let_def)
  have stepA: "resume now 0 ?Sstart = (?A, snd ?bc)"
    using i h2
    by (simp add: resume_def Let_def case_prod_beta removeTile_parts)
  have lm: "length ?ms = count (mset (holdKinds ?ss1)) ?k"
    using matching_count[of ?ss1 ?k] by simp
  have atomic: "onTileSelected now tile s =
     (case addTile (holdArea s) tile of (h, result, holdSignals) \<Rightarrow>
      case holdCallbacks now holdSignals (?s2\<lparr>holdArea := h\<rparr>) of (s3, out3) \<Rightarrow>
        (case (if getRemainingCount (board s3) = 0 \<and> getTileCount (holdArea s3) = 0
               then showWinScreen s3 else (s3, [])) of
           (s4, out4) \<Rightarrow> (s4\<lparr>isProcessing := False\<rparr>, snd ?bc @ out3 @ out4)))"
    using False by (simp add: onTileSelected_def Let_def case_prod_beta h2)
  have run0: "runTurn now tile ?ss = resumeAll now (Suc (Suc (Suc (Suc (Suc 0))))) (?Sstart, [])"
  proof -
    have five: "(5::nat) = Suc (Suc (Suc (Suc (Suc 0))))" by simp
    show ?thesis unfolding runTurn_def start five by (rule refl)
  qed
  have run1: "resumeAll now (Suc (Suc (Suc (Suc (Suc 0))))) (?Sstart, []) =
              resumeAll now (Suc (Suc (Suc (Suc 0)))) (?A, [] @ snd ?bc)"
    by (rule resumeAll_step[OF _ stepA]) simp
  show ?thesis
  proof (cases "2 \<le> length ?ms")
    case nomatch: False
    let ?hs = "if \<not> list_ex (\<lambda>slot. slot = None) ?ss1 \<and> distinct (holdKinds ?ss1) \<and>
                   onGameOver (holdArea s) then [OnGameOver] else []"
    let ?hcb = "holdCallbacks now ?hs (?s2\<lparr>holdArea := ?h1\<rparr>)"
    let ?fin = "finishTurn \<lparr>scene = fst ?hcb, suspended = []\<rparr>"
    have stepB: "resume now 0 ?A = (fst ?fin, snd ?hcb @ snd ?fin)"
      using nomatch
      by (simp add: resume_def Let_def canAddTile_def hasMatch_iff case_prod_beta)
    have at: "addTile (holdArea s) tile = (?h1, (False, 0), ?hs)"
      using nomatch lm by (simp add: addTile_insert[OF i])
    have run2: "resumeAll now (Suc (Suc (Suc (Suc 0)))) (?A, [] @ snd ?bc) =
                resumeAll now (Suc (Suc (Suc 0))) (fst ?fin, ([] @ snd ?bc) @ snd ?hcb @ snd ?fin)"
      by (rule resumeAll_step[OF _ stepB]) simp
    have run3: "resumeAll now (Suc (Suc (Suc 0))) (fst ?fin, ([] @ snd ?bc) @ snd ?hcb @ snd ?fin) =
                (fst ?fin, ([] @ snd ?bc) @ snd ?hcb @ snd ?fin)"
      by (rule resumeAll_done) (simp add: finishTurn_suspended)
    have final: "(fst ?fin, ([] @ snd ?bc) @ snd ?hcb @ snd ?fin) =
       (\<lparr>scene = fst (onTileSelected now tile s), suspended = []\<rparr>,
        snd (onTileSelected now tile s))"
      by (simp add: atomic at case_prod_beta finishTurn_scene)
    show ?thesis
      unfolding run0 run1 run2 run3 by (rule final)
  next
    case match: True
    let ?js = "take 2 ?ms"
    let ?cl = "fold (\<lambda>i ss. if ss ! i \<noteq> None then ss[i := None] else ss) ?js ?ss1"
    have d: "distinct ?js" by (simp add: distinct_take)
    have v: "\<forall>j \<in> set ?js. j < length ?ss1 \<and> ?ss1 ! j \<noteq> None"
    proof
      fix j assume "j \<in> set ?js"
      then have "j \<in> set ?ms" by (rule in_set_takeD)
      then show "j < length ?ss1 \<and> ?ss1 ! j \<noteq> None" by simp
    qed
    have aw: "filter (\<lambda>j. ?ss1 ! j \<noteq> None) ?js = ?js"
      by (rule filter_True) (use v in blast)
    have ne: "?js \<noteq> []" using match by auto
    let ?B = "\<lparr>scene = ?s2\<lparr>holdArea := ?h1\<rparr>, suspended = [InHandleMatchGlow ?js ?k]\<rparr>"
    let ?C = "\<lparr>scene = ?s2\<lparr>holdArea := ?h1\<rparr>, suspended = [InHandleMatchRemove ?js ?k]\<rparr>"
    have stepB: "resume now 0 ?A = (?B, [])"
      using match by (simp add: resume_def Let_def)
    have stepC: "resume now 0 ?B = (?C, [])"
      using ne by (simp add: resume_def Let_def aw del: not_None_eq)
    let ?hc = "?h1\<lparr>slots := ?cl\<rparr>"
    let ?Dcleared = "\<lparr>scene = ?s2\<lparr>holdArea := ?hc\<rparr>, suspended = []\<rparr>"
    have stepD: "resume now 0 ?C = compactSlots_start now ?k ?Dcleared"
      by (simp add: resume_def Let_def destroySlotTiles_present[OF d v])
    let ?Edone = "\<lparr>scene = ?s2\<lparr>holdArea := compactSlots ?hc\<rparr>, suspended = []\<rparr>"
    let ?Esusp = "\<lparr>scene = ?s2\<lparr>holdArea := compactSlots ?hc\<rparr>, suspended = [InCompactSlots ?k]\<rparr>"
    have om: "onMatch (compactSlots h) = onMatch h" for h
      by (simp add: compactSlots_def Let_def)
    let ?hs = "if onMatch (holdArea s) then [OnMatch ?k 2] else []"
    let ?hcb = "holdCallbacks now ?hs (?s2\<lparr>holdArea := compactSlots ?hc\<rparr>)"
    let ?fin = "finishTurn \<lparr>scene = fst ?hcb, suspended = []\<rparr>"
    have at: "addTile (holdArea s) tile = (compactSlots ?hc, (True, 2), ?hs)"
      using match lm by (simp add: addTile_insert[OF i])
    have after: "afterCompactSlots now ?k ?Edone = (fst ?fin, snd ?hcb @ snd ?fin)"
      by (simp add: afterCompactSlots_def Let_def om case_prod_beta)
    have final: "(fst ?fin, snd ?bc @ snd ?hcb @ snd ?fin) =
       (\<lparr>scene = fst (onTileSelected now tile s), suspended = []\<rparr>,
        snd (onTileSelected now tile s))"
      by (simp add: atomic at case_prod_beta finishTurn_scene)
    have run2: "resumeAll now (Suc (Suc (Suc (Suc 0)))) (?A, [] @ snd ?bc) =
                resumeAll now (Suc (Suc (Suc 0))) (?B, ([] @ snd ?bc) @ [])"
      by (rule resumeAll_step[OF _ stepB]) simp
    have run3: "resumeAll now (Suc (Suc (Suc 0))) (?B, ([] @ snd ?bc) @ []) =
                resumeAll now (Suc (Suc 0)) (?C, (([] @ snd ?bc) @ []) @ [])"
      by (rule resumeAll_step[OF _ stepC]) simp
    show ?thesis
    proof (cases "holdKinds ?cl = []")
      case True
      have cs: "compactSlots_start now ?k ?Dcleared = (fst ?fin, snd ?hcb @ snd ?fin)"
        using True after by (simp add: compactSlots_start_def Let_def)
      have run4: "resumeAll now (Suc (Suc 0)) (?C, (([] @ snd ?bc) @ []) @ []) =
                  resumeAll now (Suc 0) (fst ?fin, ((([] @ snd ?bc) @ []) @ []) @ snd ?hcb @ snd ?fin)"
        by (rule resumeAll_step[OF _ stepD[unfolded cs]]) simp
      have run5: "resumeAll now (Suc 0) (fst ?fin, ((([] @ snd ?bc) @ []) @ []) @ snd ?hcb @ snd ?fin) =
                  (fst ?fin, ((([] @ snd ?bc) @ []) @ []) @ snd ?hcb @ snd ?fin)"
        by (rule resumeAll_done) (simp add: finishTurn_suspended)
      show ?thesis
        unfolding run0 run1 run2 run3 run4 run5 using final by simp
    next
      case False
      have cs: "compactSlots_start now ?k ?Dcleared = (?Esusp, [])"
        using False by (simp add: compactSlots_start_def Let_def)
      have stepE: "resume now 0 ?Esusp = (fst ?fin, snd ?hcb @ snd ?fin)"
        using after by (simp add: resume_def)
      have run4: "resumeAll now (Suc (Suc 0)) (?C, (([] @ snd ?bc) @ []) @ []) =
                  resumeAll now (Suc 0) (?Esusp, ((([] @ snd ?bc) @ []) @ []) @ [])"
        by (rule resumeAll_step[OF _ stepD[unfolded cs]]) simp
      have run5: "resumeAll now (Suc 0) (?Esusp, ((([] @ snd ?bc) @ []) @ []) @ []) =
                  resumeAll now 0 (fst ?fin, (((([] @ snd ?bc) @ []) @ []) @ []) @ snd ?hcb @ snd ?fin)"
        by (rule resumeAll_step[OF _ stepE]) simp
      show ?thesis
        unfolding run0 run1 run2 run3 run4 run5 resumeAll.simps(1) using final by simp
    qed
  qed
qed

lemma runTurn_uninterrupted:
  assumes "suspended ss = []"
  shows "runTurn now tile ss =
           (ss\<lparr>scene := fst (onTileSelected now tile (scene ss))\<rparr>,
            snd (onTileSelected now tile (scene ss)))"
proof -
  have "ss = \<lparr>scene = scene ss, suspended = []\<rparr>" using assms by (cases ss) simp
  then show ?thesis using runTurn_record[of now tile "scene ss"] by (cases ss) simp
qed

section \<open>The win signal\<close>

text \<open>
  C1. The specification has the win signalled exactly when, after a completed turn, the board
  has no tile left and the hold area has no slot occupied. The code has this check at the end
  of \<open>onTileSelected\<close>, and besides it the callback \<open>Board.onWin\<close>, called by
  \<open>Board.removeTile\<close> after its \<open>await\<close> when the board it runs on has no tile left; the
  callback shows the win screen when the hold area is empty at that moment. A restart during
  the removal tween makes the two disagree. In the first game the player taps the free tile
  of layout position 0: the turn starts and stops in \<open>removeTile\<close>. The player presses the
  restart button: \<open>newGame\<close> clears the hold area, destroys the board (\<open>tiles = []\<close>, the
  callback stays) and creates a board of 44 tiles. The tween completes: the stopped
  \<open>removeTile\<close> resumes on the destroyed board, finds no tile left and calls \<open>onWin\<close>, the hold
  area is empty, and the win screen is shown, with 44 tiles on the board of the scene. The
  tween of a destroyed tile is taken to complete like any other: it belongs to the scene,
  which lives on, and the source gives the promise of \<open>removeWithAnimation\<close> no other way
  to resolve.
\<close>

theorem restart_during_removal_shows_win:
  "tiles (board (scene (Session_create None (\<lambda>i. 0)))) ! 0 =
     \<lparr>col = 0, row = 0, layer = 0, tid = 0, tileType = 0, isFree = True, isRemoved = False\<rparr> \<and>
   suspended (fst (onTileSelected_start
       \<lparr>col = 0, row = 0, layer = 0, tid = 0, tileType = 0, isFree = True, isRemoved = False\<rparr>
       (Session_create None (\<lambda>i. 0)))) =
     [InRemoveTile ThisBoard
        \<lparr>col = 0, row = 0, layer = 0, tid = 0, tileType = 0, isFree = True, isRemoved = False\<rparr>] \<and>
   getRemainingCount (board (scene sampleRestart)) = 44 \<and>
   getTileCount (holdArea (scene sampleRestart)) = 0 \<and>
   snd (resume 250 0 sampleRestart) = [ShowWinScreen] \<and>
   getRemainingCount (board (scene (fst (resume 250 0 sampleRestart)))) = 44"
  by code_simp

section \<open>Scoring\<close>

text \<open>
  \<open>onHoldMatch\<close>, the callback the scene gives to the hold area as \<open>onMatch\<close>, field by field;
  and the one place where a turn in its parts calls it, after the compaction.
\<close>

lemma onHoldMatch_fields:
  "comboCount (onHoldMatch now s) =
      (if now - lastMatchTime s < 3000 then comboCount s + 1 else 1) \<and>
   score (onHoldMatch now s) = score s + 100 * comboCount (onHoldMatch now s) \<and>
   lastMatchTime (onHoldMatch now s) = now \<and>
   highScore (onHoldMatch now s) =
      (if score (onHoldMatch now s) > highScore s then score (onHoldMatch now s) else highScore s) \<and>
   localStorage (onHoldMatch now s) =
      (if score (onHoldMatch now s) > highScore s then Some (score (onHoldMatch now s))
       else localStorage s) \<and>
   highScore s \<le> highScore (onHoldMatch now s)"
  by (simp add: onHoldMatch_def COMBO_TIME_WINDOW_def Let_def)

lemma afterCompactSlots_score:
  assumes "onMatch (holdArea (scene ss))"
  shows "snd (afterCompactSlots now k ss) = snd (finishTurn (ss\<lparr>scene := onHoldMatch now (scene ss)\<rparr>)) \<and>
         score (scene (fst (afterCompactSlots now k ss))) = score (onHoldMatch now (scene ss)) \<and>
         highScore (scene (fst (afterCompactSlots now k ss))) = highScore (onHoldMatch now (scene ss)) \<and>
         comboCount (scene (fst (afterCompactSlots now k ss))) = comboCount (onHoldMatch now (scene ss)) \<and>
         lastMatchTime (scene (fst (afterCompactSlots now k ss))) = lastMatchTime (onHoldMatch now (scene ss)) \<and>
         localStorage (scene (fst (afterCompactSlots now k ss))) = localStorage (onHoldMatch now (scene ss))"
  using assms
  by (simp add: afterCompactSlots_def Let_def case_prod_beta finishTurn_scene showWinScreen_def)

text \<open>
  The callbacks of the board and the game-over callback leave the score, the high score, the
  combo state and the storage as they are; \<open>addTile\<close> calls \<open>onMatch\<close> exactly when it has
  matched, once.
\<close>

lemma boardCallbacks_score:
  "score (fst (boardCallbacks sigs s)) = score s \<and>
   highScore (fst (boardCallbacks sigs s)) = highScore s \<and>
   comboCount (fst (boardCallbacks sigs s)) = comboCount s \<and>
   lastMatchTime (fst (boardCallbacks sigs s)) = lastMatchTime s \<and>
   localStorage (fst (boardCallbacks sigs s)) = localStorage s"
proof (induction sigs arbitrary: s)
  case Nil
  show ?case by simp
next
  case (Cons x sigs)
  have g: "score (fst (GameScene_onWin s)) = score s \<and>
   highScore (fst (GameScene_onWin s)) = highScore s \<and>
   comboCount (fst (GameScene_onWin s)) = comboCount s \<and>
   lastMatchTime (fst (GameScene_onWin s)) = lastMatchTime s \<and>
   localStorage (fst (GameScene_onWin s)) = localStorage s"
    by (simp add: GameScene_onWin_def showWinScreen_def)
  show ?case
    using Cons[of "fst (GameScene_onWin s)"] g
    by (cases x) (simp add: case_prod_beta)
qed

lemma addTile_signals:
  assumes "canAddTile h"
  shows "snd (snd (addTile h tile)) =
     (if fst (fst (snd (addTile h tile)))
      then (if onMatch h then [OnMatch (tileType tile) 2] else [])
      else (if \<not> canAddTile (fst (addTile h tile)) \<and>
               distinct (holdKinds (slots (fst (addTile h tile)))) \<and> onGameOver h
            then [OnGameOver] else []))"
proof -
  obtain i where i: "findIndex (\<lambda>slot. slot = None) (slots h) = Some i"
    using assms by (auto simp: canAddTile_findIndex)
  show ?thesis
    by (simp add: addTile_insert[OF i] canAddTile_def)
qed

lemma holdCallbacks_gameOver_score:
  "score (fst (holdCallbacks now [OnGameOver] s)) = score s \<and>
   highScore (fst (holdCallbacks now [OnGameOver] s)) = highScore s \<and>
   comboCount (fst (holdCallbacks now [OnGameOver] s)) = comboCount s \<and>
   lastMatchTime (fst (holdCallbacks now [OnGameOver] s)) = lastMatchTime s \<and>
   localStorage (fst (holdCallbacks now [OnGameOver] s)) = localStorage s"
  by (simp add: onHoldAreaFull_def showGameOverScreen_def)

lemma onTileSelected_score:
  assumes "\<not> overlayVisible s" "\<not> isProcessing s" "canAddTile (holdArea s)" "onMatch (holdArea s)"
  shows "if fst (fst (snd (addTile (holdArea s) tile)))
         then score (fst (onTileSelected now tile s)) = score (onHoldMatch now s) \<and>
              highScore (fst (onTileSelected now tile s)) = highScore (onHoldMatch now s) \<and>
              comboCount (fst (onTileSelected now tile s)) = comboCount (onHoldMatch now s) \<and>
              lastMatchTime (fst (onTileSelected now tile s)) = lastMatchTime (onHoldMatch now s) \<and>
              localStorage (fst (onTileSelected now tile s)) = localStorage (onHoldMatch now s)
         else score (fst (onTileSelected now tile s)) = score s \<and>
              highScore (fst (onTileSelected now tile s)) = highScore s \<and>
              comboCount (fst (onTileSelected now tile s)) = comboCount s \<and>
              lastMatchTime (fst (onTileSelected now tile s)) = lastMatchTime s \<and>
              localStorage (fst (onTileSelected now tile s)) = localStorage s"
proof -
  let ?s1 = "s\<lparr>isProcessing := True, board := fst (removeTile (board s) tile)\<rparr>"
  let ?s2 = "fst (boardCallbacks (snd (removeTile (board s) tile)) ?s1)"
  have h2: "holdArea ?s2 = holdArea s" by (simp add: boardCallbacks_state)
  note sc = boardCallbacks_score[of "snd (removeTile (board s) tile)" ?s1]
  note sg = addTile_signals[OF assms(3), of tile]
  show ?thesis
  proof (cases "fst (fst (snd (addTile (holdArea s) tile)))")
    case True
    then have sig: "snd (snd (addTile (holdArea s) tile)) = [OnMatch (tileType tile) 2]"
      using sg assms(4) by simp
    show ?thesis
      using assms True sc
      by (simp add: onTileSelected_def Let_def case_prod_beta h2 sig showWinScreen_def
          onHoldMatch_def)
  next
    case False
    then have "snd (snd (addTile (holdArea s) tile)) = [OnGameOver] \<or>
               snd (snd (addTile (holdArea s) tile)) = []"
      using sg by simp
    then show ?thesis
      using assms False sc
      by (auto simp: onTileSelected_def Let_def case_prod_beta h2 showWinScreen_def
          onHoldAreaFull_def showGameOverScreen_def)
  qed
qed

text \<open>
  C8. A turn is a match exactly when the hold area already holds a tile of the kind of the
  selected tile; \<open>addTile\<close> then calls \<open>onMatch\<close> once, which runs \<open>onHoldMatch\<close>. After a turn
  with a match the combo multiplier is the previous one plus 1 when the previous match lies
  strictly less than 3000 ms back and 1 otherwise, the score has grown by exactly 100 times
  that multiplier, and the high score is replaced and stored exactly when the new score
  exceeds it. After a turn without a match the score, the combo state, the high score and
  the storage are as before. Either way the high score has not decreased. The turn is one
  that starts between turns (no overlay, no turn in progress, a slot empty) with \<open>onMatch\<close>
  assigned, as \<open>GameScene.create\<close> does.
\<close>

theorem match_score:
  assumes "\<not> overlayVisible s" and "\<not> isProcessing s"
      and "canAddTile (holdArea s)" and "onMatch (holdArea s)"
  shows "fst (fst (snd (addTile (holdArea s) tile))) =
           (tileType tile \<in> set (holdKinds (slots (holdArea s)))) \<and>
         (if tileType tile \<in> set (holdKinds (slots (holdArea s)))
          then snd (snd (addTile (holdArea s) tile)) = [OnMatch (tileType tile) 2] \<and>
               comboCount (fst (onTileSelected now tile s)) =
                 (if now - lastMatchTime s < 3000 then comboCount s + 1 else 1) \<and>
               score (fst (onTileSelected now tile s)) =
                 score s + 100 * comboCount (fst (onTileSelected now tile s)) \<and>
               lastMatchTime (fst (onTileSelected now tile s)) = now \<and>
               highScore (fst (onTileSelected now tile s)) =
                 (if score (fst (onTileSelected now tile s)) > highScore s
                  then score (fst (onTileSelected now tile s)) else highScore s) \<and>
               localStorage (fst (onTileSelected now tile s)) =
                 (if score (fst (onTileSelected now tile s)) > highScore s
                  then Some (score (fst (onTileSelected now tile s))) else localStorage s)
          else OnMatch (tileType tile) 2 \<notin> set (snd (snd (addTile (holdArea s) tile))) \<and>
               comboCount (fst (onTileSelected now tile s)) = comboCount s \<and>
               score (fst (onTileSelected now tile s)) = score s \<and>
               lastMatchTime (fst (onTileSelected now tile s)) = lastMatchTime s \<and>
               highScore (fst (onTileSelected now tile s)) = highScore s \<and>
               localStorage (fst (onTileSelected now tile s)) = localStorage s) \<and>
         highScore s \<le> highScore (fst (onTileSelected now tile s))"
proof -
  note m = addTile_effect[OF assms(3), of tile]
  note sg = addTile_signals[OF assms(3), of tile]
  note sc = onTileSelected_score[OF assms, of tile now]
  note f = onHoldMatch_fields[of now s]
  show ?thesis
  proof (cases "tileType tile \<in> set (holdKinds (slots (holdArea s)))")
    case True
    then have mt: "fst (fst (snd (addTile (holdArea s) tile)))" using m by simp
    have sig: "snd (snd (addTile (holdArea s) tile)) = [OnMatch (tileType tile) 2]"
      using sg mt assms(4) by simp
    from sc mt have e: "score (fst (onTileSelected now tile s)) = score (onHoldMatch now s)"
      "highScore (fst (onTileSelected now tile s)) = highScore (onHoldMatch now s)"
      "comboCount (fst (onTileSelected now tile s)) = comboCount (onHoldMatch now s)"
      "lastMatchTime (fst (onTileSelected now tile s)) = lastMatchTime (onHoldMatch now s)"
      "localStorage (fst (onTileSelected now tile s)) = localStorage (onHoldMatch now s)"
      by simp_all
    show ?thesis
      unfolding e using True mt sig f by simp
  next
    case False
    then have mt: "\<not> fst (fst (snd (addTile (holdArea s) tile)))" using m by simp
    have sig: "OnMatch (tileType tile) 2 \<notin> set (snd (snd (addTile (holdArea s) tile)))"
      using sg mt by simp
    from sc mt have e: "score (fst (onTileSelected now tile s)) = score s"
      "highScore (fst (onTileSelected now tile s)) = highScore s"
      "comboCount (fst (onTileSelected now tile s)) = comboCount s"
      "lastMatchTime (fst (onTileSelected now tile s)) = lastMatchTime s"
      "localStorage (fst (onTileSelected now tile s)) = localStorage s"
      by simp_all
    show ?thesis
      unfolding e using False mt sig by simp
  qed
qed

theorem match_score_witness:
  "\<not> overlayVisible sampleCombo \<and> \<not> isProcessing sampleCombo \<and>
   canAddTile (holdArea sampleCombo) \<and> onMatch (holdArea sampleCombo) \<and>
   (6::nat) \<in> set (holdKinds (slots (holdArea sampleCombo))) \<and>
   comboCount (fst (onTileSelected 12000
      \<lparr>col = 5, row = 0, layer = 0, tid = 5, tileType = 6, isFree = True, isRemoved = False\<rparr>
      sampleCombo)) = 2 \<and>
   score (fst (onTileSelected 12000
      \<lparr>col = 5, row = 0, layer = 0, tid = 5, tileType = 6, isFree = True, isRemoved = False\<rparr>
      sampleCombo)) = 300 \<and>
   highScore (fst (onTileSelected 12000
      \<lparr>col = 5, row = 0, layer = 0, tid = 5, tileType = 6, isFree = True, isRemoved = False\<rparr>
      sampleCombo)) = 300 \<and>
   localStorage (fst (onTileSelected 12000
      \<lparr>col = 5, row = 0, layer = 0, tid = 5, tileType = 6, isFree = True, isRemoved = False\<rparr>
      sampleCombo)) = Some 300"
proof -
  let ?t = "\<lparr>col = 5, row = 0, layer = 0, tid = 5, tileType = 6, isFree = True, isRemoved = False\<rparr>"
  have h: "\<not> overlayVisible sampleCombo" "\<not> isProcessing sampleCombo"
    "canAddTile (holdArea sampleCombo)" "onMatch (holdArea sampleCombo)"
    by (simp_all add: sampleCombo_def canAddTile_def)
  have k: "tileType ?t \<in> set (holdKinds (slots (holdArea sampleCombo)))"
    by (simp add: sampleCombo_def holdKinds_def)
  have v: "score sampleCombo = 100" "highScore sampleCombo = 250" "comboCount sampleCombo = 1"
    "lastMatchTime sampleCombo = 10000"
    by (simp_all add: sampleCombo_def)
  from match_score[OF h, of ?t 12000] k v h show ?thesis by simp
qed

section \<open>Calls in a terminal state\<close>







end
